theory Spec2Isabelle
  imports Complex_Main "HOL-Library.AList"
begin

section \<open>Python values used by complete_app.py\<close>

text \<open>
  A Python \<open>str\<close> is a sequence of Unicode code points; a code point is a natural
  number. \<open>lit\<close> turns an ASCII literal into such a string.
\<close>

type_synonym str = "nat list"

definition lit :: "string \<Rightarrow> str" where
  "lit cs = map of_char cs"

text \<open>The code points for which \<open>str.isspace\<close> holds; \<open>str.strip()\<close> removes them.\<close>

definition isspace :: "nat \<Rightarrow> bool" where
  "isspace c \<longleftrightarrow>
     (9 \<le> c \<and> c \<le> 13) \<or> (28 \<le> c \<and> c \<le> 32) \<or> c = 133 \<or> c = 160 \<or> c = 5760 \<or>
     (8192 \<le> c \<and> c \<le> 8202) \<or> c = 8232 \<or> c = 8233 \<or> c = 8239 \<or> c = 8287 \<or> c = 12288"

definition strip :: "str \<Rightarrow> str" where
  "strip x = rev (dropWhile isspace (rev (dropWhile isspace x)))"

fun join :: "str \<Rightarrow> str list \<Rightarrow> str" where
  "join sep [] = []"
| "join sep [x] = x"
| "join sep (x # y # ys) = x @ sep @ join sep (y # ys)"

text \<open>Exceptions the script can raise are values; \<open>Inl\<close> carries the exception.\<close>

datatype py_error = KeyError | ZeroDivisionError

definition py_bind :: "py_error + 'a \<Rightarrow> ('a \<Rightarrow> py_error + 'b) \<Rightarrow> py_error + 'b" where
  "py_bind m f = (case m of Inl e \<Rightarrow> Inl e | Inr x \<Rightarrow> f x)"

text \<open>\<open>for x in xs: body\<close>, where the body updates an accumulator and may raise.\<close>

fun for_each :: "('a \<Rightarrow> 's \<Rightarrow> py_error + 's) \<Rightarrow> 'a list \<Rightarrow> 's \<Rightarrow> py_error + 's" where
  "for_each body [] s = Inr s"
| "for_each body (x # xs) s = py_bind (body x s) (for_each body xs)"

text \<open>The list comprehension \<open>[x for x in xs if cond(x)]\<close> with a condition that may raise.\<close>

fun filter_err :: "('a \<Rightarrow> py_error + bool) \<Rightarrow> 'a list \<Rightarrow> py_error + 'a list" where
  "filter_err cond [] = Inr []"
| "filter_err cond (x # xs) =
     py_bind (cond x) (\<lambda>b. py_bind (filter_err cond xs) (\<lambda>ys. Inr (if b then x # ys else ys)))"

text \<open>
  A \<open>dict\<close> keeps its keys in insertion order: an association list with distinct keys.
  \<open>d[k]\<close> raises \<open>KeyError\<close> on a missing key; \<open>d[k] = v\<close> replaces the value of a
  present key in place and appends a new key at the end.
\<close>

type_synonym ('k, 'v) dict = "('k \<times> 'v) list"

definition getitem :: "('k, 'v) dict \<Rightarrow> 'k \<Rightarrow> py_error + 'v" where
  "getitem d k = (case map_of d k of None \<Rightarrow> Inl KeyError | Some v \<Rightarrow> Inr v)"

definition setitem :: "'k \<Rightarrow> 'v \<Rightarrow> ('k, 'v) dict \<Rightarrow> ('k, 'v) dict" where
  "setitem k v d = AList.update k v d"

definition dict_values :: "('k, 'v) dict \<Rightarrow> 'v list" where
  "dict_values d = map snd d"

text \<open>The comprehension \<open>{k: f(k) for k in ks}\<close>.\<close>

definition dict_comp :: "('k \<Rightarrow> 'v) \<Rightarrow> 'k list \<Rightarrow> ('k, 'v) dict" where
  "dict_comp f ks = foldl (\<lambda>d k. setitem k (f k) d) [] ks"

text \<open>
  \<open>datetime.now()\<close> is an input of a script run. \<open>isoformat(timespec="seconds")\<close> of a
  naive datetime prints \<open>%04d-%02d-%02dT%02d:%02d:%02d\<close>.
\<close>

record datetime =
  year :: nat
  month :: nat
  day :: nat
  hour :: nat
  minute :: nat
  second :: nat
  microsecond :: nat

fun decimal :: "nat \<Rightarrow> str" where
  "decimal n = (if n < 10 then [48 + n] else decimal (n div 10) @ [48 + n mod 10])"

declare decimal.simps [simp del]

definition zero_padded :: "nat \<Rightarrow> nat \<Rightarrow> str" where
  "zero_padded w n = replicate (w - length (decimal n)) 48 @ decimal n"

definition isoformat_seconds :: "datetime \<Rightarrow> str" where
  "isoformat_seconds t =
     zero_padded 4 (year t) @ lit ''-'' @ zero_padded 2 (month t) @ lit ''-'' @
     zero_padded 2 (day t) @ lit ''T'' @ zero_padded 2 (hour t) @ lit '':'' @
     zero_padded 2 (minute t) @ lit '':'' @ zero_padded 2 (second t)"

definition valid_datetime :: "datetime \<Rightarrow> bool" where
  "valid_datetime t \<longleftrightarrow>
     1 \<le> year t \<and> year t \<le> 9999 \<and> 1 \<le> month t \<and> month t \<le> 12 \<and> 1 \<le> day t \<and> day t \<le> 31 \<and>
     hour t < 24 \<and> minute t < 60 \<and> second t < 60 \<and> microsecond t < 1000000"

text \<open>
  A Python \<open>float\<close> is an IEEE 754 binary64 number: 53 significant bits, exponents from
  -1022 to 1023. An arithmetic operation returns the exact result rounded to the nearest
  representable number, a tie going to the one with the even significand. A float is
  modelled by the real number it denotes. \<open>binade x\<close> is the exponent \<open>e\<close> with
  \<open>2^e \<le> x < 2^(e+1)\<close>; the doubles of that binade are the multiples of \<open>2^(e-52)\<close>, and
  those below \<open>2^-1022\<close> are the multiples of \<open>2^-1074\<close>. Overflow to infinity is left
  out: the script divides a count by a length that is at least the count and multiplies
  the quotient by 100.
\<close>

fun bit_length :: "nat \<Rightarrow> nat" where
  "bit_length n = (if n = 0 then 0 else Suc (bit_length (n div 2)))"

declare bit_length.simps [simp del]

definition two_to :: "int \<Rightarrow> real" where
  "two_to e = (if 0 \<le> e then 2 ^ nat e else 1 / 2 ^ nat (- e))"

definition binade :: "real \<Rightarrow> int" where
  "binade x =
     (if 1 \<le> x then int (bit_length (nat \<lfloor>x\<rfloor>)) - 1
      else - int (bit_length (nat \<lceil>1 / x\<rceil> - 1)))"

definition round_half_even :: "real \<Rightarrow> int" where
  "round_half_even y =
     (let f = \<lfloor>y\<rfloor>; d = y - of_int f
      in if d < 1 / 2 then f else if 1 / 2 < d then f + 1 else if even f then f else f + 1)"

definition round_double :: "real \<Rightarrow> real" where
  "round_double x =
     (if x = 0 then 0
      else let u = two_to (max (binade \<bar>x\<bar>) (- 1022) - 52)
           in of_int (round_half_even (x / u)) * u)"

text \<open>\<open>a * b\<close> on floats; an \<open>int\<close> operand such as 100 is converted exactly.\<close>

definition float_mul :: "real \<Rightarrow> real \<Rightarrow> real" where
  "float_mul a b = round_double (a * b)"

section \<open>Session state and the object store\<close>

definition TECHNOLOGIES :: "str list" where
  "TECHNOLOGIES = [lit ''Tech A'', lit ''Tech B'', lit ''Tech C'', lit ''Tech D'', lit ''Tech E'']"

definition CRITERIA :: "str list" where
  "CRITERIA =
     [lit ''Criteria 1'', lit ''Criteria 2'', lit ''Criteria 3'', lit ''Criteria 4'',
      lit ''Criteria 5'']"

text \<open>
  \<open>current_selections\<close> is a dict of dicts. The inner dicts (one per technology) are
  mutated in place (line 107) and are shared by \<open>dict.copy()\<close> (line 136), so they live
  in an object store and the outer dict holds their addresses. The outer dict is never
  mutated in place (it is copied at line 136 and rebound at line 144), so it is a value.
  Every Python reference is valid; the store is total and an address not yet handed out
  holds the empty dict.
\<close>

type_synonym addr = nat
type_synonym row = "(str, bool) dict"
type_synonym grid = "(str, addr) dict"

record evaluation =
  evaluator_name :: str
  timestamp :: str
  selections :: grid
  comments :: str

record state =
  evaluations :: "evaluation list"
  current_evaluator :: "str option"
  current_selections :: grid
  current_comment :: str
  heap :: "addr \<Rightarrow> row"
  next_addr :: addr

text \<open>Creating a new dict object: it gets the next unused address.\<close>

definition new_dict :: "row \<Rightarrow> state \<Rightarrow> addr \<times> state" where
  "new_dict r st =
     (next_addr st, st\<lparr>heap := (heap st)(next_addr st := r), next_addr := Suc (next_addr st)\<rparr>)"

text \<open>
  \<open>{tech: {criterion: False for criterion in CRITERIA} for tech in TECHNOLOGIES}\<close>
  (lines 41 and 144-147): one new inner dict per technology.
\<close>

fun blank_grid_from :: "str list \<Rightarrow> grid \<Rightarrow> state \<Rightarrow> grid \<times> state" where
  "blank_grid_from [] g st = (g, st)"
| "blank_grid_from (tech # techs) g st =
     (case new_dict (dict_comp (\<lambda>criterion. False) CRITERIA) st of
        (a, st') \<Rightarrow> blank_grid_from techs (setitem tech a g) st')"

definition blank_grid :: "state \<Rightarrow> grid \<times> state" where
  "blank_grid st = blank_grid_from TECHNOLOGIES [] st"

text \<open>
  Lines 34-44 on a new session: every key is absent and gets its initial value. On every
  later run the keys are present and the block does nothing.
\<close>

definition init_state :: state where
  "init_state =
     (case blank_grid \<lparr>evaluations = [], current_evaluator = None, current_selections = [],
                       current_comment = [], heap = (\<lambda>a. []), next_addr = 0\<rparr> of
        (g, st) \<Rightarrow> st\<lparr>current_selections := g\<rparr>)"

text \<open>\<open>g[tech][criterion]\<close> for a dict of dicts \<open>g\<close>.\<close>

definition cell :: "state \<Rightarrow> grid \<Rightarrow> str \<Rightarrow> str \<Rightarrow> py_error + bool" where
  "cell st g tech criterion = py_bind (getitem g tech) (\<lambda>a. getitem (heap st a) criterion)"

section \<open>One run of the script\<close>

text \<open>
  The widgets return values the script does not compute: the text of the name box (line
  53), the data frame of the grid editor (line 86; same index and columns as the frame it
  was given, checkbox cells), the text of the comment box (line 114), whether the button
  was clicked in this run (line 128) and the clock.
\<close>

type_synonym frame = "nat \<Rightarrow> str \<Rightarrow> bool"

record widget_values =
  evaluator_input :: str
  evaluation_table :: frame
  comments_area :: str
  submit_button :: bool
  clock :: datetime

datatype pyval = S str | B bool

text \<open>Lines 76-81: the rows handed to the grid editor.\<close>

definition table_row :: "state \<Rightarrow> str \<Rightarrow> py_error + (str, pyval) dict" where
  "table_row st tech =
     for_each
       (\<lambda>criterion r.
          py_bind (cell st (current_selections st) tech criterion)
            (\<lambda>b. Inr (setitem criterion (B b) r)))
       CRITERIA [(lit ''Technology'', S tech)]"

definition table_data :: "state \<Rightarrow> py_error + (str, pyval) dict list" where
  "table_data st =
     for_each (\<lambda>tech rows. py_bind (table_row st tech) (\<lambda>r. Inr (rows @ [r]))) TECHNOLOGIES []"

text \<open>Lines 105-107: the edited frame is written into the live grid, cell by cell.\<close>

definition store_cell :: "str \<Rightarrow> str \<Rightarrow> bool \<Rightarrow> state \<Rightarrow> py_error + state" where
  "store_cell tech criterion v st =
     py_bind (getitem (current_selections st) tech)
       (\<lambda>a. Inr (st\<lparr>heap := (heap st)(a := setitem criterion v (heap st a))\<rparr>))"

definition update_selections :: "frame \<Rightarrow> state \<Rightarrow> py_error + state" where
  "update_selections edited_df st =
     for_each
       (\<lambda>(idx, tech). for_each (\<lambda>criterion. store_cell tech criterion (edited_df idx criterion)) CRITERIA)
       (enumerate 0 TECHNOLOGIES) st"

text \<open>Lines 128-151: the submit button's branch.\<close>

datatype feedback = NoFeedback | ErrorMessage str | SuccessMessage str

definition submit :: "str \<Rightarrow> str \<Rightarrow> datetime \<Rightarrow> state \<Rightarrow> state \<times> feedback" where
  "submit name_text comment_text now st =
     (if strip name_text = [] then
        (st, ErrorMessage (lit ''Please enter your name before submitting.''))
      else
        let evaluation =
              \<lparr>evaluator_name = strip name_text,
               timestamp = isoformat_seconds now,
               selections = current_selections st,
               comments = strip comment_text\<rparr>;
            st1 = st\<lparr>evaluations := evaluations st @ [evaluation]\<rparr>
        in case blank_grid st1 of
             (g, st2) \<Rightarrow>
               (st2\<lparr>current_selections := g, current_comment := []\<rparr>,
                SuccessMessage
                  ([9989] @ lit '' Thank you, '' @ name_text @
                   lit ''! Your evaluation has been submitted.'')))"

text \<open>
  Lines 160-173: the aggregated scores. \<open>/\<close> on two ints raises on a zero divisor and
  otherwise returns the quotient rounded to a double; the product with 100 is rounded
  again.
\<close>

definition true_div :: "nat \<Rightarrow> nat \<Rightarrow> py_error + real" where
  "true_div a b = (if b = 0 then Inl ZeroDivisionError else Inr (round_double (real a / real b)))"

definition count_selected :: "state \<Rightarrow> str \<Rightarrow> str \<Rightarrow> py_error + nat" where
  "count_selected st tech criterion =
     for_each
       (\<lambda>eval n. py_bind (cell st (selections eval) tech criterion) (\<lambda>b. Inr (if b then n + 1 else n)))
       (evaluations st) 0"

definition score_step ::
  "state \<Rightarrow> str \<Rightarrow> str \<Rightarrow> (str, real list) dict \<Rightarrow> py_error + (str, real list) dict" where
  "score_step st criterion tech scores =
     py_bind (count_selected st tech criterion) (\<lambda>count.
     py_bind (true_div count (length (evaluations st))) (\<lambda>q.
     py_bind (getitem scores tech) (\<lambda>l.
     Inr (setitem tech (l @ [float_mul q 100]) scores))))"

definition tech_scores :: "state \<Rightarrow> py_error + (str, real list) dict" where
  "tech_scores st =
     for_each (\<lambda>criterion. for_each (score_step st criterion) TECHNOLOGIES) CRITERIA
       (dict_comp (\<lambda>tech. []) TECHNOLOGIES)"

text \<open>Lines 227-240: the summary table, one dict per evaluation.\<close>

definition any_selected :: "state \<Rightarrow> evaluation \<Rightarrow> str \<Rightarrow> py_error + bool" where
  "any_selected st eval tech =
     py_bind (getitem (selections eval) tech) (\<lambda>a. Inr (list_ex (\<lambda>v. v) (dict_values (heap st a))))"

definition display_row :: "state \<Rightarrow> evaluation \<Rightarrow> py_error + (str, str) dict" where
  "display_row st eval =
     (let r = [(lit ''Evaluator'', evaluator_name eval),
               (lit ''Timestamp'', timestamp eval),
               (lit ''Comments'', if comments eval \<noteq> [] then comments eval else lit ''(no comments)'')]
      in py_bind (filter_err (any_selected st eval) TECHNOLOGIES) (\<lambda>selected_techs.
         Inr (setitem (lit ''Selected Technologies'')
                (if selected_techs \<noteq> [] then join (lit '', '') selected_techs
                 else lit ''(none selected)'') r)))"

definition results_for_display :: "state \<Rightarrow> py_error + (str, str) dict list" where
  "results_for_display st =
     for_each (\<lambda>eval rows. py_bind (display_row st eval) (\<lambda>r. Inr (rows @ [r]))) (evaluations st) []"

text \<open>Lines 249-260: the rows of the detailed export. The check mark is U+2713.\<close>

definition check_mark :: str where
  "check_mark = [10003]"

definition csv_row :: "state \<Rightarrow> evaluation \<Rightarrow> str \<Rightarrow> py_error + (str, str) dict" where
  "csv_row st eval tech =
     for_each
       (\<lambda>criterion r.
          py_bind (cell st (selections eval) tech criterion)
            (\<lambda>b. Inr (setitem criterion (if b then check_mark else []) r)))
       CRITERIA
       [(lit ''Evaluator'', evaluator_name eval), (lit ''Timestamp'', timestamp eval),
        (lit ''Technology'', tech), (lit ''Comments'', comments eval)]"

definition csv_rows :: "state \<Rightarrow> py_error + (str, str) dict list" where
  "csv_rows st =
     for_each
       (\<lambda>eval. for_each (\<lambda>tech rows. py_bind (csv_row st eval tech) (\<lambda>r. Inr (rows @ [r]))) TECHNOLOGIES)
       (evaluations st) []"

text \<open>
  Lines 160-284: the results section. The summary export (line 274) is the summary table
  written as CSV, so both carry the rows of \<open>results_for_display\<close>.
\<close>

datatype results =
  NoData str
| Results (chart_scores: "(str, real list) dict") (summary_rows: "(str, str) dict list")
    (detailed_rows: "(str, str) dict list")

definition results_section :: "state \<Rightarrow> py_error + results" where
  "results_section st =
     (if evaluations st \<noteq> [] then
        py_bind (tech_scores st) (\<lambda>ts.
        py_bind (results_for_display st) (\<lambda>rs.
        py_bind (csv_rows st) (\<lambda>cs. Inr (Results ts rs cs))))
      else Inr (NoData (lit ''No evaluations submitted yet. Start evaluating above to see results!'')))"

text \<open>
  The whole script, top to bottom. An exception ends the run, and the model then returns
  the exception alone, without the partly updated state; \<open>script_wf\<close> below shows that
  no run that starts in a well-formed state raises.
\<close>

definition script :: "widget_values \<Rightarrow> state \<Rightarrow> py_error + (state \<times> feedback \<times> results)" where
  "script w st =
     py_bind (table_data st) (\<lambda>table_df.
     py_bind (update_selections (evaluation_table w) st) (\<lambda>st1.
     case (if submit_button w then submit (evaluator_input w) (comments_area w) (clock w) st1
           else (st1, NoFeedback)) of
       (st2, fb) \<Rightarrow> py_bind (results_section st2) (\<lambda>res. Inr (st2, fb, res))))"

text \<open>A session: the script runs once per user interaction.\<close>

fun run_session :: "widget_values list \<Rightarrow> state \<Rightarrow> py_error + state" where
  "run_session [] st = Inr st"
| "run_session (w # ws) st = py_bind (script w st) (\<lambda>(st', fb, res). run_session ws st')"

text \<open>
  The browser page around the script. A widget created with a \<open>key\<close> keeps its value
  from one run to the next until the user changes it or the script assigns
  \<open>st.session_state[key]\<close>; the script assigns neither \<open>evaluator_input\<close> nor
  \<open>comments_area\<close>. What the grid editor returns is decided by the framework and stays
  an input of every run.
\<close>

record page =
  name_box :: str
  comment_box :: str

datatype user_action = TypeName str | TypeComment str | EditTable | ClickSubmit

fun user_edit :: "user_action \<Rightarrow> page \<Rightarrow> page" where
  "user_edit (TypeName x) pg = pg\<lparr>name_box := x\<rparr>"
| "user_edit (TypeComment x) pg = pg\<lparr>comment_box := x\<rparr>"
| "user_edit EditTable pg = pg"
| "user_edit ClickSubmit pg = pg"

definition interact ::
  "user_action \<times> frame \<times> datetime \<Rightarrow> page \<times> state \<Rightarrow> py_error + (page \<times> state)" where
  "interact ev ps =
     (case (ev, ps) of
        ((act, edited_df, now), (pg, st)) \<Rightarrow>
          let pg' = user_edit act pg in
          py_bind
            (script \<lparr>evaluator_input = name_box pg', evaluation_table = edited_df,
                     comments_area = comment_box pg', submit_button = (act = ClickSubmit),
                     clock = now\<rparr> st)
            (\<lambda>(st', fb, res). Inr (pg', st')))"

fun interactions ::
  "(user_action \<times> frame \<times> datetime) list \<Rightarrow> page \<times> state \<Rightarrow> py_error + (page \<times> state)" where
  "interactions [] ps = Inr ps"
| "interactions (ev # evs) ps = py_bind (interact ev ps) (interactions evs)"

section \<open>Well-formed states\<close>

text \<open>
  The shape every state of a session has: each grid (the live one and the one of every
  stored evaluation) has exactly the technologies as keys, each of its rows is an
  allocated dict with exactly the criteria as keys, the rows of the live grid are pairwise
  different objects, and no stored evaluation holds a row of the live grid.
\<close>

definition rows_ok :: "state \<Rightarrow> grid \<Rightarrow> bool" where
  "rows_ok st g \<longleftrightarrow>
     map fst g = TECHNOLOGIES \<and>
     list_all (\<lambda>a. a < next_addr st \<and> map fst (heap st a) = CRITERIA) (map snd g)"

definition wf_state :: "state \<Rightarrow> bool" where
  "wf_state st \<longleftrightarrow>
     rows_ok st (current_selections st) \<and>
     distinct (map snd (current_selections st)) \<and>
     list_all
       (\<lambda>e. rows_ok st (selections e) \<and>
            list_all (\<lambda>a. a \<notin> set (map snd (current_selections st))) (map snd (selections e)))
       (evaluations st)"

text \<open>What an evaluation selected, read through the store.\<close>

definition selected :: "state \<Rightarrow> evaluation \<Rightarrow> str \<Rightarrow> str \<Rightarrow> bool" where
  "selected st e tech criterion \<longleftrightarrow> cell st (selections e) tech criterion = Inr True"

text \<open>
  The percentage as the specification words it: \<open>100 * K / N\<close>, with \<open>K\<close> the number of
  stored evaluations that selected the pair and \<open>N\<close> the number of stored evaluations.
\<close>

definition spec_percentage :: "state \<Rightarrow> str \<Rightarrow> str \<Rightarrow> real" where
  "spec_percentage st tech criterion =
     100 * real (length (filter (\<lambda>e. selected st e tech criterion) (evaluations st))) /
       real (length (evaluations st))"

text \<open>
  The percentage as line 172 computes it on those two numbers: \<open>(K / N) * 100\<close> in
  doubles, each of the two operations rounding its result.
\<close>

definition float_percentage :: "state \<Rightarrow> str \<Rightarrow> str \<Rightarrow> real" where
  "float_percentage st tech criterion =
     float_mul
       (round_double
          (real (length (filter (\<lambda>e. selected st e tech criterion) (evaluations st))) /
           real (length (evaluations st))))
       100"

text \<open>
  The rows of the two exports as the specification words them. A summary row lists the
  technologies with at least one selected criterion; a detailed row has the four fixed
  columns and then one column per criterion.
\<close>

definition spec_selected_techs :: "state \<Rightarrow> evaluation \<Rightarrow> str list" where
  "spec_selected_techs st e = filter (\<lambda>tech. list_ex (selected st e tech) CRITERIA) TECHNOLOGIES"

definition spec_summary_row :: "state \<Rightarrow> evaluation \<Rightarrow> (str, str) dict" where
  "spec_summary_row st e =
     [(lit ''Evaluator'', evaluator_name e),
      (lit ''Timestamp'', timestamp e),
      (lit ''Comments'', if comments e = [] then lit ''(no comments)'' else comments e),
      (lit ''Selected Technologies'',
       if spec_selected_techs st e = [] then lit ''(none selected)''
       else join (lit '', '') (spec_selected_techs st e))]"

definition spec_csv_row :: "state \<Rightarrow> evaluation \<Rightarrow> str \<Rightarrow> (str, str) dict" where
  "spec_csv_row st e tech =
     [(lit ''Evaluator'', evaluator_name e), (lit ''Timestamp'', timestamp e),
      (lit ''Technology'', tech), (lit ''Comments'', comments e)] @
     map (\<lambda>criterion. (criterion, if selected st e tech criterion then check_mark else [])) CRITERIA"

section \<open>An example session\<close>

text \<open>
  The scenario of the specification: Alice ticks (Tech A, Criteria 1) only, writes
  "good fit" and submits. A second evaluator, Bob, ticks (Tech B, Criteria 2).
\<close>

definition example_clock :: datetime where
  "example_clock =
     \<lparr>year = 2026, month = 1, day = 5, hour = 3, minute = 0, second = 59, microsecond = 5\<rparr>"

definition alice_inputs :: widget_values where
  "alice_inputs =
     \<lparr>evaluator_input = lit '' Alice '',
      evaluation_table = (\<lambda>idx criterion. idx = 0 \<and> criterion = lit ''Criteria 1''),
      comments_area = lit ''good fit'', submit_button = True, clock = example_clock\<rparr>"

definition blank_inputs :: widget_values where
  "blank_inputs =
     \<lparr>evaluator_input = lit ''  '', evaluation_table = (\<lambda>idx criterion. False),
      comments_area = lit ''fine'', submit_button = True, clock = example_clock\<rparr>"

definition bob_inputs :: widget_values where
  "bob_inputs =
     \<lparr>evaluator_input = lit ''Bob'',
      evaluation_table = (\<lambda>idx criterion. idx = 1 \<and> criterion = lit ''Criteria 2''),
      comments_area = [], submit_button = True, clock = example_clock\<lparr>minute := 7\<rparr>\<rparr>"

definition alice_record :: evaluation where
  "alice_record =
     \<lparr>evaluator_name = lit ''Alice'', timestamp = lit ''2026-01-05T03:00:59'',
      selections = current_selections init_state, comments = lit ''good fit''\<rparr>"

definition alice_state :: state where
  "alice_state =
     (case script alice_inputs init_state of Inr (st, fb, res) \<Rightarrow> st | Inl e \<Rightarrow> init_state)"

definition bob_record :: evaluation where
  "bob_record =
     \<lparr>evaluator_name = lit ''Bob'', timestamp = lit ''2026-01-05T03:07:59'',
      selections = current_selections alice_state, comments = []\<rparr>"

definition bob_state :: state where
  "bob_state =
     (case script bob_inputs alice_state of Inr (st, fb, res) \<Rightarrow> st | Inl e \<Rightarrow> alice_state)"

text \<open>
  A longer session, a poll of twenty submissions: Carol submits eleven times with
  Criteria 1 ticked for Tech A, Tech C and Tech E, then Dave submits nine times with
  nothing ticked.
\<close>

definition yes_inputs :: widget_values where
  "yes_inputs =
     \<lparr>evaluator_input = lit ''Carol'',
      evaluation_table = (\<lambda>idx criterion. (idx = 0 \<or> idx = 2 \<or> idx = 4) \<and> criterion = lit ''Criteria 1''),
      comments_area = [], submit_button = True, clock = example_clock\<rparr>"

definition no_inputs :: widget_values where
  "no_inputs =
     \<lparr>evaluator_input = lit ''Dave'', evaluation_table = (\<lambda>idx criterion. False),
      comments_area = [], submit_button = True, clock = example_clock\<rparr>"

definition poll_inputs :: "widget_values list" where
  "poll_inputs = replicate 11 yes_inputs @ replicate 9 no_inputs"

definition poll_state :: state where
  "poll_state = (case run_session poll_inputs init_state of Inr st \<Rightarrow> st | Inl e \<Rightarrow> init_state)"

section \<open>Rounding to a double\<close>

lemma bit_length_le: "n < 2 ^ k \<Longrightarrow> bit_length n \<le> k"
proof (induction k arbitrary: n)
  case 0
  then show ?case by (simp add: bit_length.simps)
next
  case (Suc k)
  show ?case
  proof (cases "n = 0")
    case True
    then show ?thesis by (simp add: bit_length.simps)
  next
    case False
    have "n div 2 < 2 ^ k" using Suc.prems by auto
    from Suc.IH [OF this] show ?thesis using False by (subst bit_length.simps) simp
  qed
qed

lemma bit_length_pos: "0 < n \<Longrightarrow> 0 < bit_length n"
  by (subst bit_length.simps) simp

lemma bit_length_bounds: "0 < n \<Longrightarrow> 2 ^ (bit_length n - 1) \<le> n \<and> n < 2 ^ bit_length n"
proof (induction n rule: bit_length.induct)
  case (1 n)
  show ?case
  proof (cases "n div 2 = 0")
    case True
    then have "n = 1" using "1.prems" by auto
    then show ?thesis by (simp add: bit_length.simps)
  next
    case False
    then have h: "2 ^ (bit_length (n div 2) - 1) \<le> n div 2 \<and> n div 2 < 2 ^ bit_length (n div 2)"
      using "1.IH" "1.prems" by simp
    have bl: "bit_length n = Suc (bit_length (n div 2))"
      using "1.prems" by (subst bit_length.simps) simp
    have p: "0 < bit_length (n div 2)" using False by (intro bit_length_pos) simp
    then obtain m where m: "bit_length (n div 2) = Suc m" by (cases "bit_length (n div 2)") auto
    have h1: "2 ^ m \<le> n div 2" and h2: "n div 2 < 2 * 2 ^ m" using h m by simp_all
    have d1: "2 * (n div 2) \<le> n" and d2: "n < 2 * (n div 2) + 2" by presburger+
    have "2 * 2 ^ m \<le> n" using h1 d1 by linarith
    moreover have "n < 2 * 2 ^ Suc m" using h2 d2 by simp
    ultimately show ?thesis by (simp add: bl m)
  qed
qed

lemma two_to_pos: "0 < two_to e"
  by (simp add: two_to_def)

lemma two_to_powr: "two_to e = 2 powr (real_of_int e)"
proof (cases "0 \<le> e")
  case True
  then have "real_of_int e = real (nat e)" by simp
  then show ?thesis using True by (simp add: two_to_def powr_realpow del: of_nat_nat)
next
  case False
  then have "real_of_int e = - real (nat (- e))" by simp
  then show ?thesis using False by (simp add: two_to_def powr_minus powr_realpow divide_inverse del: of_nat_nat)
qed

lemma two_to_mono: "e \<le> e' \<Longrightarrow> two_to e \<le> two_to e'"
  by (simp add: two_to_powr)

lemma two_to_neg: "two_to (- int n) = 1 / 2 ^ n"
  by (cases "n = 0") (simp_all add: two_to_def)

lemma binade_small: "0 < x \<Longrightarrow> x < 1 \<Longrightarrow> binade x \<le> - 1"
proof -
  assume x: "0 < x" "x < 1"
  then have "1 < 1 / x" by simp
  then have "2 \<le> \<lceil>1 / x\<rceil>" by linarith
  then have "0 < nat \<lceil>1 / x\<rceil> - 1" by simp
  from bit_length_pos [OF this] show ?thesis using x by (simp add: binade_def)
qed

lemma binade_below: "1 \<le> x \<Longrightarrow> x < 2 ^ k \<Longrightarrow> binade x \<le> int k - 1"
proof -
  assume x: "1 \<le> x" "x < 2 ^ k"
  have "\<lfloor>x\<rfloor> < 2 ^ k" using x(2) by (simp add: floor_less_iff)
  then have "nat \<lfloor>x\<rfloor> < 2 ^ k" using x(1) by (metis nat_less_iff of_nat_numeral of_nat_power zero_le_floor order_trans zero_le_one)
  from bit_length_le [OF this] show ?thesis using x(1) by (simp add: binade_def)
qed

lemma round_half_even_lower: "\<lfloor>y\<rfloor> \<le> round_half_even y"
  by (simp add: round_half_even_def Let_def)

lemma round_half_even_upper: "round_half_even y \<le> \<lceil>y\<rceil>"
proof (cases "y = of_int \<lfloor>y\<rfloor>")
  case True
  then have "y - of_int \<lfloor>y\<rfloor> < 1 / 2" by simp
  then show ?thesis by (simp add: round_half_even_def Let_def)
next
  case False
  then have "\<lceil>y\<rceil> = \<lfloor>y\<rfloor> + 1" by (metis ceiling_altdef)
  then show ?thesis by (simp add: round_half_even_def Let_def)
qed

lemma round_half_even_error: "\<bar>of_int (round_half_even y) - y\<bar> \<le> 1 / 2"
proof -
  have "of_int \<lfloor>y\<rfloor> \<le> y" "y < of_int \<lfloor>y\<rfloor> + 1" by linarith+
  then show ?thesis by (auto simp: round_half_even_def Let_def abs_le_iff)
qed

lemma round_double_nonneg: "0 \<le> x \<Longrightarrow> 0 \<le> round_double x"
proof (cases "x = 0")
  case True
  then show ?thesis by (simp add: round_double_def)
next
  case False
  assume "0 \<le> x"
  let ?u = "two_to (max (binade \<bar>x\<bar>) (- 1022) - 52)"
  have "0 \<le> x / ?u" using \<open>0 \<le> x\<close> two_to_pos [of "max (binade \<bar>x\<bar>) (- 1022) - 52"] by simp
  then have "0 \<le> \<lfloor>x / ?u\<rfloor>" by simp
  then have "0 \<le> round_half_even (x / ?u)" using round_half_even_lower [of "x / ?u"] by linarith
  then show ?thesis using False two_to_pos [of "max (binade \<bar>x\<bar>) (- 1022) - 52"]
    by (simp add: round_double_def Let_def)
qed

lemma round_double_le:
  assumes "0 < x" "x \<le> real b" "binade x \<le> 52"
  shows "round_double x \<le> real b"
proof -
  let ?k = "max (binade \<bar>x\<bar>) (- 1022) - 52"
  let ?u = "two_to ?k"
  have k: "?k \<le> 0" using assms(1,3) by simp
  then obtain n where n: "?k = - int n" by (metis neg_le_0_iff_le nonneg_int_cases minus_minus)
  have u: "?u = 1 / 2 ^ n" unfolding n by (rule two_to_neg)
  have "x / ?u \<le> real b / ?u" using assms(2) two_to_pos [of ?k] by (simp add: divide_right_mono)
  also have "real b / ?u = of_int (int (b * 2 ^ n))" unfolding u by simp
  finally have "\<lceil>x / ?u\<rceil> \<le> int (b * 2 ^ n)" by (simp only: ceiling_le_iff)
  then have "round_half_even (x / ?u) \<le> int (b * 2 ^ n)"
    using round_half_even_upper [of "x / ?u"] by linarith
  then have "real_of_int (round_half_even (x / ?u)) \<le> real (b * 2 ^ n)"
    by (metis of_int_le_iff of_int_of_nat_eq)
  then have "real_of_int (round_half_even (x / ?u)) * ?u \<le> real (b * 2 ^ n) * ?u"
    using two_to_pos [of ?k] by (simp add: mult_right_mono)
  also have "real (b * 2 ^ n) * ?u = real b" unfolding u by simp
  finally show ?thesis using assms(1) by (simp add: round_double_def Let_def)
qed

lemma round_double_error:
  assumes "0 < x" "binade x \<le> e" "- 1022 \<le> e"
  shows "\<bar>round_double x - x\<bar> \<le> two_to (e - 52) / 2"
proof -
  let ?k = "max (binade \<bar>x\<bar>) (- 1022) - 52"
  let ?u = "two_to ?k"
  have up: "0 < ?u" by (rule two_to_pos)
  have "\<bar>of_int (round_half_even (x / ?u)) - x / ?u\<bar> \<le> 1 / 2" by (rule round_half_even_error)
  then have "\<bar>of_int (round_half_even (x / ?u)) - x / ?u\<bar> * ?u \<le> 1 / 2 * ?u"
    using up by (intro mult_right_mono) simp_all
  moreover have "\<bar>of_int (round_half_even (x / ?u)) - x / ?u\<bar> * ?u =
        \<bar>of_int (round_half_even (x / ?u)) * ?u - x\<bar>"
  proof -
    have "(of_int (round_half_even (x / ?u)) - x / ?u) * ?u =
          of_int (round_half_even (x / ?u)) * ?u - x"
      using up by (simp add: left_diff_distrib)
    moreover have "\<bar>of_int (round_half_even (x / ?u)) - x / ?u\<bar> * ?u =
          \<bar>(of_int (round_half_even (x / ?u)) - x / ?u) * ?u\<bar>"
      using up by (simp add: abs_mult)
    ultimately show ?thesis by simp
  qed
  ultimately have "\<bar>round_double x - x\<bar> \<le> ?u / 2"
    using assms(1) by (simp add: round_double_def Let_def)
  moreover have "?u \<le> two_to (e - 52)" using assms by (intro two_to_mono) simp
  ultimately show ?thesis by simp
qed

lemma binade_bounds:
  assumes "0 < x"
  shows "two_to (binade x) \<le> x \<and> x < two_to (binade x + 1)"
proof (cases "1 \<le> x")
  case True
  let ?n = "nat \<lfloor>x\<rfloor>"
  have n: "0 < ?n" using True by simp
  from bit_length_bounds [OF n] have b: "2 ^ (bit_length ?n - 1) \<le> ?n" "?n < 2 ^ bit_length ?n"
    by simp_all
  have bp: "0 < bit_length ?n" using n by (rule bit_length_pos)
  have fl: "real ?n = of_int \<lfloor>x\<rfloor>" using True by simp
  have nx: "real ?n \<le> x" "x < real ?n + 1" unfolding fl by linarith+
  have lo: "two_to (int (bit_length ?n) - 1) = 2 ^ (bit_length ?n - 1)"
    using bp by (simp add: two_to_def nat_diff_distrib)
  have hi: "two_to (int (bit_length ?n) - 1 + 1) = 2 ^ bit_length ?n"
    by (simp add: two_to_def)
  have "real (2 ^ (bit_length ?n - 1)) \<le> real ?n"
    using b(1) by (simp only: of_nat_le_iff)
  then have "(2::real) ^ (bit_length ?n - 1) \<le> real ?n" by simp
  then have A: "2 ^ (bit_length ?n - 1) \<le> x" using nx(1) by linarith
  have "Suc ?n \<le> 2 ^ bit_length ?n" using b(2) by (rule Suc_leI)
  then have "real (Suc ?n) \<le> real (2 ^ bit_length ?n)" by (simp only: of_nat_le_iff)
  then have "real ?n + 1 \<le> 2 ^ bit_length ?n" by simp
  then have B: "x < 2 ^ bit_length ?n" using nx(2) by linarith
  have bin: "binade x = int (bit_length ?n) - 1" using True by (simp add: binade_def)
  show ?thesis unfolding bin lo hi by (intro conjI A B)
next
  case False
  then have x1: "x < 1" by simp
  let ?m = "nat \<lceil>1 / x\<rceil>"
  have "1 < 1 / x" using assms x1 by simp
  then have m2: "2 \<le> \<lceil>1 / x\<rceil>" by linarith
  then have mp: "0 < ?m - 1" by simp
  let ?k = "bit_length (?m - 1)"
  from bit_length_bounds [OF mp] have b: "2 ^ (?k - 1) \<le> ?m - 1" "?m - 1 < 2 ^ ?k"
    by simp_all
  have kp: "0 < ?k" using mp by (rule bit_length_pos)
  have cl: "real ?m = of_int \<lceil>1 / x\<rceil>" using m2 by simp
  have mx: "1 / x \<le> real ?m" "real ?m - 1 < 1 / x" unfolding cl by linarith+
  have "?m \<le> 2 ^ ?k" using b(2) mp by linarith
  then have "real ?m \<le> real (2 ^ ?k)" by (simp only: of_nat_le_iff)
  then have "real ?m \<le> 2 ^ ?k" by simp
  then have "1 / x \<le> 2 ^ ?k" using mx(1) by linarith
  then have lo: "1 / 2 ^ ?k \<le> x" using assms by (simp add: field_simps)
  have "real (2 ^ (?k - 1)) \<le> real (?m - 1)" using b(1) by (simp only: of_nat_le_iff)
  then have "(2::real) ^ (?k - 1) \<le> real (?m - 1)" by simp
  moreover have "real (?m - 1) = real ?m - 1"
  proof -
    have "1 \<le> ?m" using mp by linarith
    then have "real (?m - 1) = real ?m - real 1" by (rule of_nat_diff)
    then show ?thesis by (simp only: of_nat_1)
  qed
  ultimately have "2 ^ (?k - 1) < 1 / x" using mx(2) by linarith
  then have hi: "x < 1 / 2 ^ (?k - 1)" using assms by (simp add: field_simps)
  have e1: "two_to (- int ?k) = 1 / 2 ^ ?k" by (rule two_to_neg)
  have "- int ?k + 1 = - int (?k - 1)" using kp by simp
  then have e2: "two_to (- int ?k + 1) = 1 / 2 ^ (?k - 1)" by (simp only: two_to_neg)
  have bin: "binade x = - int ?k" using False by (simp add: binade_def)
  show ?thesis unfolding bin e1 e2 by (intro conjI lo hi)
qed

lemma two_roundings:
  assumes "k \<le> n" "0 < n"
  shows "0 \<le> round_double (round_double (real k / real n) * 100) \<and>
         round_double (round_double (real k / real n) * 100) \<le> 100 \<and>
         \<bar>round_double (round_double (real k / real n) * 100) - 100 * real k / real n\<bar> \<le> 1 / 2 ^ 45"
proof (cases "k = 0")
  case True
  then show ?thesis by (simp add: round_double_def)
next
  case False
  let ?x = "real k / real n"
  let ?q = "round_double ?x"
  let ?r = "round_double (?q * 100)"
  have x: "0 < ?x" "?x \<le> 1" using assms False by simp_all
  have bx: "binade ?x \<le> 0"
  proof (cases "?x < 1")
    case True
    then show ?thesis using binade_small [OF x(1)] by simp
  next
    case False
    then have "1 \<le> ?x" "?x < 2 ^ 1" using x(2) by simp_all
    from binade_below [OF this] show ?thesis by simp
  qed
  have q0: "0 \<le> ?q" using x(1) by (intro round_double_nonneg) simp
  have q1: "?q \<le> 1" using round_double_le [OF x(1), of 1] x(2) bx by simp
  have qe: "\<bar>?q - ?x\<bar> \<le> 1 / 2 ^ 53"
    using round_double_error [OF x(1) bx] by (simp add: two_to_def)
  have r: "0 \<le> ?r \<and> ?r \<le> 100 \<and> \<bar>?r - ?q * 100\<bar> \<le> 1 / 2 ^ 47"
  proof (cases "?q = 0")
    case True
    then show ?thesis by (simp add: round_double_def)
  next
    case False
    then have y: "0 < ?q * 100" "?q * 100 \<le> real 100" using q0 q1 by simp_all
    have b6: "binade (?q * 100) \<le> 6"
    proof (cases "?q * 100 < 1")
      case True
      then show ?thesis using binade_small [OF y(1)] by simp
    next
      case False
      then have "1 \<le> ?q * 100" "?q * 100 < 2 ^ 7" using y(2) by simp_all
      from binade_below [OF this] show ?thesis by simp
    qed
    have "?r \<le> real 100" using y by (intro round_double_le) (use b6 in simp_all)
    moreover have "0 \<le> ?r" using y(1) by (intro round_double_nonneg) simp
    moreover have "\<bar>?r - ?q * 100\<bar> \<le> 1 / 2 ^ 47"
      using round_double_error [OF y(1) b6] by (simp add: two_to_def)
    ultimately show ?thesis by simp
  qed
  have split: "?r - 100 * ?x = (?r - ?q * 100) + (?q * 100 - 100 * ?x)" by simp
  have scale: "\<bar>?q * 100 - 100 * ?x\<bar> = 100 * \<bar>?q - ?x\<bar>"
  proof -
    have "?q * 100 - 100 * ?x = 100 * (?q - ?x)" by (simp add: algebra_simps)
    then have "\<bar>?q * 100 - 100 * ?x\<bar> = \<bar>100 * (?q - ?x)\<bar>" by (rule arg_cong)
    also have "\<dots> = \<bar>100\<bar> * \<bar>?q - ?x\<bar>" by (rule abs_mult)
    finally show ?thesis by simp
  qed
  have "\<bar>?r - 100 * ?x\<bar> \<le> \<bar>?r - ?q * 100\<bar> + \<bar>?q * 100 - 100 * ?x\<bar>"
    by (subst split) (rule abs_triangle_ineq)
  then have "\<bar>?r - 100 * ?x\<bar> \<le> \<bar>?r - ?q * 100\<bar> + 100 * \<bar>?q - ?x\<bar>"
    unfolding scale .
  then have "\<bar>?r - 100 * ?x\<bar> \<le> 1 / 2 ^ 47 + 100 * (1 / 2 ^ 53)" using r qe by linarith
  also have "\<dots> \<le> 1 / 2 ^ 45" by simp
  finally show ?thesis using r by simp
qed

lemma percentage_rounding:
  assumes "k \<le> n" "0 < n"
  shows "0 \<le> float_mul (round_double (real k / real n)) 100 \<and>
         float_mul (round_double (real k / real n)) 100 \<le> 100 \<and>
         \<bar>float_mul (round_double (real k / real n)) 100 - 100 * real k / real n\<bar> \<le> 1 / 2 ^ 45"
  unfolding float_mul_def using assms by (rule two_roundings)

text \<open>Values of line 172, computed by the definitions.\<close>

lemma round_half_even_ties:
  "round_half_even (5 / 2) = 2" "round_half_even (7 / 2) = 4" "round_half_even (- 5 / 2) = - 2"
  "round_half_even (9 / 4) = 2" "round_half_even (11 / 4) = 3"
  by code_simp+

lemma round_double_exact:
  "round_double 0 = 0" "round_double 1 = 1" "round_double (1 / 2) = 1 / 2" "round_double 100 = 100"
  by code_simp+

lemma round_double_eleven_twentieths: "round_double (11 / 20) = 4953959590107546 / 2 ^ 53"
  by code_simp

lemma float_mul_examples:
  "float_mul (round_double (0 / 1)) 100 = 0"
  "float_mul (round_double (1 / 1)) 100 = 100"
  "float_mul (round_double (1 / 2)) 100 = 50"
  "float_mul (round_double (0 / 20)) 100 = 0"
  "float_mul (round_double (11 / 20)) 100 = 55 + 1 / 2 ^ 47"
  "float_mul (round_double (2 / 3)) 100 = 2345624805922133 / 2 ^ 45"
  by code_simp+

section \<open>Basic facts\<close>

lemma py_bind_Inr [simp]: "py_bind (Inr x) f = f x"
  by (simp add: py_bind_def)

lemma py_bind_Inl [simp]: "py_bind (Inl e) f = Inl e"
  by (simp add: py_bind_def)

lemma py_bind_eq_Inr: "py_bind m f = Inr y \<longleftrightarrow> (\<exists>x. m = Inr x \<and> f x = Inr y)"
  by (cases m) simp_all

lemma getitem_eq_Inr: "getitem d k = Inr v \<longleftrightarrow> map_of d k = Some v"
  by (simp add: getitem_def split: option.splits)

lemma getitem_present: "k \<in> fst ` set d \<Longrightarrow> \<exists>v. getitem d k = Inr v \<and> (k, v) \<in> set d"
  by (auto simp: getitem_def split: option.splits dest: map_of_SomeD simp: map_of_eq_None_iff)

lemma setitem_new: "k \<notin> fst ` set d \<Longrightarrow> setitem k v d = d @ [(k, v)]"
  unfolding setitem_def by (induction d) auto

lemma keys_setitem_present: "k \<in> fst ` set d \<Longrightarrow> map fst (setitem k v d) = map fst d"
  by (simp add: setitem_def update_keys)

lemma map_of_setitem: "map_of (setitem k v d) = (map_of d)(k \<mapsto> v)"
  by (simp add: setitem_def update_conv')

lemma dict_comp_from:
  "distinct ks \<Longrightarrow> set ks \<inter> fst ` set d = {} \<Longrightarrow>
   foldl (\<lambda>d k. setitem k (f k) d) d ks = d @ map (\<lambda>k. (k, f k)) ks"
proof (induction ks arbitrary: d)
  case Nil
  then show ?case by simp
next
  case (Cons k ks)
  have "setitem k (f k) d = d @ [(k, f k)]"
    using Cons.prems by (intro setitem_new) auto
  moreover have "set ks \<inter> fst ` set (d @ [(k, f k)]) = {}"
    using Cons.prems by auto
  ultimately show ?case
    using Cons.IH [of "d @ [(k, f k)]"] Cons.prems by simp
qed

lemma dict_comp_distinct: "distinct ks \<Longrightarrow> dict_comp f ks = map (\<lambda>k. (k, f k)) ks"
  using dict_comp_from [of ks "[]" f] by (simp add: dict_comp_def)

lemma distinct_TECHNOLOGIES: "distinct TECHNOLOGIES"
  by (simp add: TECHNOLOGIES_def lit_def)

lemma distinct_CRITERIA: "distinct CRITERIA"
  by (simp add: CRITERIA_def lit_def)

lemma length_TECHNOLOGIES: "length TECHNOLOGIES = 5"
  by (simp add: TECHNOLOGIES_def)

lemma length_CRITERIA: "length CRITERIA = 5"
  by (simp add: CRITERIA_def)

lemma blank_grid_from_state:
  "snd (blank_grid_from techs g st) =
     st\<lparr>heap := (\<lambda>a. if a \<in> {next_addr st ..< next_addr st + length techs}
                       then dict_comp (\<lambda>criterion. False) CRITERIA else heap st a),
        next_addr := next_addr st + length techs\<rparr>"
proof (induction techs arbitrary: g st)
  case Nil
  then show ?case by simp
next
  case (Cons t ts)
  show ?case
    by (auto simp: Cons.IH new_dict_def fun_eq_iff)
qed

lemma blank_grid_from_grid:
  "distinct techs \<Longrightarrow> set techs \<inter> fst ` set g = {} \<Longrightarrow>
   fst (blank_grid_from techs g st) = g @ zip techs [next_addr st ..< next_addr st + length techs]"
proof (induction techs arbitrary: g st)
  case Nil
  then show ?case by simp
next
  case (Cons t ts)
  have g1: "setitem t (next_addr st) g = g @ [(t, next_addr st)]"
    using Cons.prems by (intro setitem_new) auto
  have disj: "set ts \<inter> fst ` set (g @ [(t, next_addr st)]) = {}"
    using Cons.prems by auto
  have d: "distinct ts" using Cons.prems by simp
  show ?case
    using Cons.IH [OF d disj]
    by (simp add: new_dict_def g1 upt_conv_Cons del: upt_Suc)
qed

lemma blank_row_eq:
  "dict_comp (\<lambda>criterion. False) CRITERIA = map (\<lambda>c. (c, False)) CRITERIA"
  by (rule dict_comp_distinct [OF distinct_CRITERIA])

lemma blank_grid_eq:
  "blank_grid st =
     (zip TECHNOLOGIES [next_addr st ..< next_addr st + 5],
      st\<lparr>heap := (\<lambda>a. if a \<in> {next_addr st ..< next_addr st + 5}
                        then map (\<lambda>c. (c, False)) CRITERIA else heap st a),
         next_addr := next_addr st + 5\<rparr>)"
  using blank_grid_from_grid [OF distinct_TECHNOLOGIES, of "[]" st]
    blank_grid_from_state [of TECHNOLOGIES "[]" st]
  unfolding blank_row_eq
  by (simp add: blank_grid_def prod_eq_iff length_TECHNOLOGIES)

lemma keys_set_setitem: "fst ` set (setitem k v d) = insert k (fst ` set d)"
  by (simp add: setitem_def dom_update)

lemma store_loop:
  "getitem (current_selections st) tech = Inr a \<Longrightarrow>
   for_each (\<lambda>criterion. store_cell tech criterion (f criterion)) cs st =
     Inr (st\<lparr>heap := (heap st)(a := foldl (\<lambda>r c. setitem c (f c) r) (heap st a) cs)\<rparr>)"
proof (induction cs arbitrary: st)
  case Nil
  then show ?case by simp
next
  case (Cons c cs)
  let ?st1 = "st\<lparr>heap := (heap st)(a := setitem c (f c) (heap st a))\<rparr>"
  have one: "store_cell tech c (f c) st = Inr ?st1"
    using Cons.prems by (simp add: store_cell_def)
  have "getitem (current_selections ?st1) tech = Inr a" using Cons.prems by simp
  then have "for_each (\<lambda>criterion. store_cell tech criterion (f criterion)) cs ?st1 =
     Inr (?st1\<lparr>heap := (heap ?st1)(a := foldl (\<lambda>r c. setitem c (f c) r) (heap ?st1 a) cs)\<rparr>)"
    by (rule Cons.IH)
  also have "?st1\<lparr>heap := (heap ?st1)(a := foldl (\<lambda>r c. setitem c (f c) r) (heap ?st1 a) cs)\<rparr> =
     st\<lparr>heap := (heap st)(a := foldl (\<lambda>r c. setitem c (f c) r) (heap st a) (c # cs))\<rparr>"
    by simp
  finally show ?case by (simp only: for_each.simps one py_bind_Inr)
qed

lemma keys_fold_setitem:
  "set cs \<subseteq> fst ` set r \<Longrightarrow> map fst (foldl (\<lambda>r c. setitem c (f c) r) r cs) = map fst r"
proof (induction cs arbitrary: r)
  case Nil
  then show ?case by simp
next
  case (Cons c cs)
  have "set cs \<subseteq> fst ` set (setitem c (f c) r)"
    using Cons.prems by (auto simp: keys_set_setitem)
  from Cons.IH [OF this] show ?case
    using Cons.prems by (simp add: keys_setitem_present)
qed

lemma map_of_fold_setitem:
  "map_of (foldl (\<lambda>r c. setitem c (f c) r) r cs) k =
     (if k \<in> set cs then Some (f k) else map_of r k)"
proof (induction cs arbitrary: r rule: rev_induct)
  case Nil
  then show ?case by simp
next
  case (snoc c cs)
  then show ?case by (simp add: map_of_setitem)
qed


lemma update_loop:
  assumes "\<forall>(i, t) \<in> set its. t \<in> fst ` set (current_selections st)"
  shows "\<exists>h'. for_each (\<lambda>(idx, tech). for_each (\<lambda>criterion. store_cell tech criterion (df idx criterion)) CRITERIA) its st
               = Inr (st\<lparr>heap := h'\<rparr>) \<and>
           (\<forall>a. a \<notin> snd ` set (current_selections st) \<longrightarrow> h' a = heap st a) \<and>
           (\<forall>a. set CRITERIA \<subseteq> fst ` set (heap st a) \<longrightarrow> map fst (h' a) = map fst (heap st a))"
  using assms
proof (induction its arbitrary: st)
  case Nil
  have "st\<lparr>heap := heap st\<rparr> = st" by simp
  then show ?case by (intro exI [of _ "heap st"]) simp
next
  case (Cons it its)
  obtain i t where it: "it = (i, t)" by (cases it)
  let ?g = "current_selections st"
  have "t \<in> fst ` set ?g" using Cons.prems it by auto
  from getitem_present [OF this] obtain a where a: "getitem ?g t = Inr a" "(t, a) \<in> set ?g"
    by blast
  let ?r = "foldl (\<lambda>r c. setitem c (df i c) r) (heap st a) CRITERIA"
  let ?st1 = "st\<lparr>heap := (heap st)(a := ?r)\<rparr>"
  have one: "for_each (\<lambda>criterion. store_cell t criterion (df i criterion)) CRITERIA st = Inr ?st1"
    using store_loop [OF a(1)] .
  have "\<forall>(i, t) \<in> set its. t \<in> fst ` set (current_selections ?st1)"
    using Cons.prems by simp
  from Cons.IH [OF this] obtain h' where
    run: "for_each (\<lambda>(idx, tech). for_each (\<lambda>criterion. store_cell tech criterion (df idx criterion)) CRITERIA) its ?st1
            = Inr (?st1\<lparr>heap := h'\<rparr>)" and
    same0: "\<forall>b. b \<notin> snd ` set (current_selections ?st1) \<longrightarrow> h' b = heap ?st1 b" and
    keys0: "\<forall>b. set CRITERIA \<subseteq> fst ` set (heap ?st1 b) \<longrightarrow> map fst (h' b) = map fst (heap ?st1 b)"
    by (elim exE conjE)
  have same: "h' b = heap ?st1 b" if "b \<notin> snd ` set ?g" for b
    using same0 that by simp
  have keys: "map fst (h' b) = map fst (heap ?st1 b)" if "set CRITERIA \<subseteq> fst ` set (heap ?st1 b)" for b
    using keys0 that by blast
  have st1': "?st1\<lparr>heap := h'\<rparr> = st\<lparr>heap := h'\<rparr>" by simp
  have k1: "map fst (heap ?st1 b) = map fst (heap st b)" if "set CRITERIA \<subseteq> fst ` set (heap st b)" for b
    using that by (cases "b = a") (simp_all add: keys_fold_setitem)
  have c1: "for_each (\<lambda>(idx, tech). for_each (\<lambda>criterion. store_cell tech criterion (df idx criterion)) CRITERIA) (it # its) st
               = Inr (st\<lparr>heap := h'\<rparr>)"
    unfolding it using run by (simp only: for_each.simps prod.case one py_bind_Inr st1')
  have c2: "h' b = heap st b" if "b \<notin> snd ` set ?g" for b
  proof -
    have "b \<noteq> a" using that a(2) by force
    then show ?thesis using same [OF that] by simp
  qed
  have c3: "map fst (h' b) = map fst (heap st b)" if "set CRITERIA \<subseteq> fst ` set (heap st b)" for b
  proof -
    have e: "map fst (heap ?st1 b) = map fst (heap st b)" using k1 [OF that] .
    then have "set (map fst (heap ?st1 b)) = set (map fst (heap st b))" by simp
    then have "set CRITERIA \<subseteq> fst ` set (heap ?st1 b)" using that by (simp only: set_map)
    from keys [OF this] e show ?thesis by simp
  qed
  show ?case by (intro exI [of _ h'] conjI allI impI c1 c2 c3)
qed

lemma rows_okD:
  "rows_ok st g \<Longrightarrow> map fst g = TECHNOLOGIES"
  "rows_ok st g \<Longrightarrow> a \<in> snd ` set g \<Longrightarrow> a < next_addr st"
  "rows_ok st g \<Longrightarrow> a \<in> snd ` set g \<Longrightarrow> map fst (heap st a) = CRITERIA"
  by (auto simp: rows_ok_def list_all_iff)

lemma rows_ok_keys: "rows_ok st g \<Longrightarrow> fst ` set g = set TECHNOLOGIES"
  by (metis rows_okD(1) set_map)

lemma rows_ok_cong:
  assumes "rows_ok st g" "next_addr st \<le> next_addr st'"
    and "\<And>a. a \<in> snd ` set g \<Longrightarrow> map fst (heap st' a) = CRITERIA"
  shows "rows_ok st' g"
  using assms by (auto simp: rows_ok_def list_all_iff)

lemma wf_stateD:
  "wf_state st \<Longrightarrow> rows_ok st (current_selections st)"
  "wf_state st \<Longrightarrow> distinct (map snd (current_selections st))"
  "wf_state st \<Longrightarrow> e \<in> set (evaluations st) \<Longrightarrow> rows_ok st (selections e)"
  "wf_state st \<Longrightarrow> e \<in> set (evaluations st) \<Longrightarrow> a \<in> snd ` set (selections e) \<Longrightarrow>
     a \<notin> snd ` set (current_selections st)"
  by (auto simp: wf_state_def list_all_iff)

lemma cell_ok:
  assumes "rows_ok st g" "tech \<in> set TECHNOLOGIES" "criterion \<in> set CRITERIA"
  shows "\<exists>a b. (tech, a) \<in> set g \<and> getitem g tech = Inr a \<and>
               getitem (heap st a) criterion = Inr b \<and> cell st g tech criterion = Inr b"
proof -
  have "tech \<in> fst ` set g" using assms(1,2) by (simp add: rows_ok_keys)
  from getitem_present [OF this] obtain a where a: "getitem g tech = Inr a" "(tech, a) \<in> set g"
    by blast
  have "a \<in> snd ` set g" using a(2) by force
  then have "map fst (heap st a) = CRITERIA" using assms(1) by (rule rows_okD(3) [rotated])
  then have "criterion \<in> fst ` set (heap st a)" using assms(3) by (metis set_map)
  from getitem_present [OF this] obtain b where "getitem (heap st a) criterion = Inr b"
    by blast
  then show ?thesis using a by (auto simp: cell_def)
qed

lemma update_selections_wf:
  assumes "wf_state st"
  shows "\<exists>h'. update_selections df st = Inr (st\<lparr>heap := h'\<rparr>) \<and>
           (\<forall>a. a \<notin> snd ` set (current_selections st) \<longrightarrow> h' a = heap st a) \<and>
           (\<forall>a. map fst (heap st a) = CRITERIA \<longrightarrow> map fst (h' a) = CRITERIA) \<and>
           wf_state (st\<lparr>heap := h'\<rparr>)"
proof -
  let ?g = "current_selections st"
  have "\<forall>(i, t) \<in> set (enumerate 0 TECHNOLOGIES). t \<in> fst ` set ?g"
    using rows_ok_keys [OF wf_stateD(1) [OF assms]] by (auto simp: in_set_enumerate_eq)
  from update_loop [OF this, of df] obtain h' where
    run: "update_selections df st = Inr (st\<lparr>heap := h'\<rparr>)" and
    same: "\<forall>a. a \<notin> snd ` set ?g \<longrightarrow> h' a = heap st a" and
    keys0: "\<forall>a. set CRITERIA \<subseteq> fst ` set (heap st a) \<longrightarrow> map fst (h' a) = map fst (heap st a)"
    unfolding update_selections_def by (elim exE conjE)
  have keys: "map fst (h' a) = CRITERIA" if "map fst (heap st a) = CRITERIA" for a
  proof -
    have "set CRITERIA \<subseteq> fst ` set (heap st a)" using that by (metis set_map subset_refl)
    then show ?thesis using keys0 that by simp
  qed
  have ro: "rows_ok (st\<lparr>heap := h'\<rparr>) g" if "rows_ok st g" for g
    using that keys by (auto simp: rows_ok_def list_all_iff)
  have "wf_state (st\<lparr>heap := h'\<rparr>)"
    using assms ro by (auto simp: wf_state_def list_all_iff)
  then show ?thesis using run same keys by blast
qed

text \<open>Loops that only read succeed when every step does.\<close>

lemma for_each_collect:
  assumes "\<And>x. x \<in> set xs \<Longrightarrow> \<exists>y. f x = Inr y"
  shows "\<exists>ys. for_each (\<lambda>x acc. py_bind (f x) (\<lambda>y. Inr (acc @ [y]))) xs acc0 = Inr (acc0 @ ys) \<and>
               map (\<lambda>x. Inr x) ys = map f xs"
  using assms
proof (induction xs arbitrary: acc0)
  case Nil
  then show ?case by simp
next
  case (Cons x xs)
  from Cons.prems [of x] obtain y where y: "f x = Inr y" by auto
  have "\<And>z. z \<in> set xs \<Longrightarrow> \<exists>y. f z = Inr y" using Cons.prems by simp
  from Cons.IH [OF this, of "acc0 @ [y]"] obtain ys where
    ys: "for_each (\<lambda>x acc. py_bind (f x) (\<lambda>y. Inr (acc @ [y]))) xs (acc0 @ [y]) = Inr ((acc0 @ [y]) @ ys)"
      "map (\<lambda>x. Inr x) ys = map f xs"
    by blast
  show ?case
    by (rule exI [of _ "y # ys"]) (simp add: y ys)
qed

lemma for_each_update_keys:
  assumes "\<And>c. c \<in> set cs \<Longrightarrow> \<exists>y. f c = Inr y"
  shows "\<exists>r'. for_each (\<lambda>c r. py_bind (f c) (\<lambda>y. Inr (setitem c (g y) r))) cs r = Inr r' \<and>
               r' = foldl (\<lambda>r c. setitem c (g (projr (f c))) r) r cs"
  using assms
proof (induction cs arbitrary: r)
  case Nil
  then show ?case by simp
next
  case (Cons c cs)
  from Cons.prems [of c] obtain y where y: "f c = Inr y" by auto
  have "\<And>z. z \<in> set cs \<Longrightarrow> \<exists>y. f z = Inr y" using Cons.prems by simp
  from Cons.IH [OF this, of "setitem c (g y) r"]
  show ?case by (simp add: y)
qed

lemma table_data_ok:
  assumes "wf_state st"
  shows "\<exists>rows. table_data st = Inr rows"
proof -
  have row: "\<exists>r. table_row st tech = Inr r" if "tech \<in> set TECHNOLOGIES" for tech
  proof -
    have "\<And>c. c \<in> set CRITERIA \<Longrightarrow> \<exists>b. cell st (current_selections st) tech c = Inr b"
      using cell_ok [OF wf_stateD(1) [OF assms] that] by blast
    from for_each_update_keys [where g = B and cs = CRITERIA
        and f = "cell st (current_selections st) tech", OF this]
    show ?thesis unfolding table_row_def by blast
  qed
  from for_each_collect [where xs = TECHNOLOGIES and f = "table_row st" and ?acc0.0 = "[]", OF row]
  show ?thesis unfolding table_data_def by auto
qed

lemma submit_blank:
  "strip name_text = [] \<Longrightarrow>
   submit name_text comment_text now st =
     (st, ErrorMessage (lit ''Please enter your name before submitting.''))"
  by (simp add: submit_def)

lemma submit_ok:
  "strip name_text \<noteq> [] \<Longrightarrow>
   submit name_text comment_text now st =
     (st\<lparr>evaluations := evaluations st @
            [\<lparr>evaluator_name = strip name_text, timestamp = isoformat_seconds now,
              selections = current_selections st, comments = strip comment_text\<rparr>],
         current_selections := zip TECHNOLOGIES [next_addr st ..< next_addr st + 5],
         current_comment := [],
         heap := (\<lambda>a. if a \<in> {next_addr st ..< next_addr st + 5}
                       then map (\<lambda>c. (c, False)) CRITERIA else heap st a),
         next_addr := next_addr st + 5\<rparr>,
      SuccessMessage ([9989] @ lit '' Thank you, '' @ name_text @
                      lit ''! Your evaluation has been submitted.''))"
  by (simp add: submit_def blank_grid_eq Let_def cong: if_cong)

lemma zip_upt_keys: "length ts = k \<Longrightarrow> map fst (zip ts [n ..< n + k]) = ts"
  by (simp add: map_fst_zip)

lemma zip_upt_addrs: "length ts = k \<Longrightarrow> map snd (zip ts [n ..< n + k]) = [n ..< n + k]"
  by (simp add: map_snd_zip)

lemma submit_wf:
  assumes "wf_state st"
  shows "wf_state (fst (submit name_text comment_text now st))"
proof (cases "strip name_text = []")
  case True
  then show ?thesis using assms by (simp add: submit_blank)
next
  case False
  let ?n = "next_addr st"
  let ?g = "zip TECHNOLOGIES [?n ..< ?n + 5]"
  let ?h = "\<lambda>a. if a \<in> {?n ..< ?n + 5} then map (\<lambda>c. (c, False)) CRITERIA else heap st a"
  let ?e = "\<lparr>evaluator_name = strip name_text, timestamp = isoformat_seconds now,
              selections = current_selections st, comments = strip comment_text\<rparr>"
  let ?st' = "st\<lparr>evaluations := evaluations st @ [?e], current_selections := ?g,
                current_comment := [], heap := ?h, next_addr := ?n + 5\<rparr>"
  have gk: "map fst ?g = TECHNOLOGIES" by (rule zip_upt_keys) (rule length_TECHNOLOGIES)
  have ga: "map snd ?g = [?n ..< ?n + 5]" by (rule zip_upt_addrs) (rule length_TECHNOLOGIES)
  have old: "rows_ok ?st' g \<and> list_all (\<lambda>a. a \<notin> set (map snd ?g)) (map snd g)" if "rows_ok st g" for g
    using that unfolding ga by (auto simp: rows_ok_def list_all_iff)
  have new: "rows_ok ?st' ?g"
    unfolding rows_ok_def gk ga by (auto simp: list_all_iff comp_def)
  have "wf_state ?st'"
    unfolding wf_state_def
  proof (intro conjI)
    show "rows_ok ?st' (current_selections ?st')" using new by simp
    show "distinct (map snd (current_selections ?st'))" using ga by simp
    have r: "rows_ok st (selections e)" if "e \<in> set (evaluations st @ [?e])" for e
      using that wf_stateD(1,3) [OF assms] by auto
    show "list_all (\<lambda>e. rows_ok ?st' (selections e) \<and>
            list_all (\<lambda>a. a \<notin> set (map snd (current_selections ?st'))) (map snd (selections e)))
       (evaluations ?st')"
      unfolding list_all_iff
    proof
      fix e assume "e \<in> set (evaluations ?st')"
      then have "e \<in> set (evaluations st @ [?e])" by simp
      then have "rows_ok st (selections e)" by (rule r)
      from old [OF this]
      show "rows_ok ?st' (selections e) \<and>
            (\<forall>a\<in>set (map snd (selections e)). a \<notin> set (map snd (current_selections ?st')))"
        by (simp add: list_all_iff)
    qed
  qed
  then show ?thesis using False by (simp add: submit_ok)
qed

lemma for_each_cong_set:
  "(\<And>x s. x \<in> set xs \<Longrightarrow> f x s = g x s) \<Longrightarrow> for_each f xs s = for_each g xs s"
proof (induction xs arbitrary: s)
  case Nil
  then show ?case by simp
next
  case (Cons x xs)
  have "for_each f xs s' = for_each g xs s'" for s'
    using Cons.IH Cons.prems by simp
  then have "for_each f xs = for_each g xs" by (rule ext)
  then show ?case using Cons.prems [of x s] by simp
qed

lemma count_loop:
  assumes "\<And>e. e \<in> set es \<Longrightarrow> \<exists>b. f e = Inr b"
  shows "for_each (\<lambda>e n. py_bind (f e) (\<lambda>b. Inr (if b then n + 1 else n))) es n0 =
         Inr (n0 + length (filter (\<lambda>e. f e = Inr True) es))"
  using assms
proof (induction es arbitrary: n0)
  case Nil
  then show ?case by simp
next
  case (Cons e es)
  from Cons.prems [of e] obtain b where b: "f e = Inr b" by auto
  have "\<And>x. x \<in> set es \<Longrightarrow> \<exists>b. f x = Inr b" using Cons.prems by simp
  from Cons.IH [OF this] show ?case by (simp add: b)
qed

lemma count_selected_wf:
  assumes "wf_state st" "tech \<in> set TECHNOLOGIES" "criterion \<in> set CRITERIA"
  shows "count_selected st tech criterion =
         Inr (length (filter (\<lambda>e. selected st e tech criterion) (evaluations st)))"
proof -
  have "\<exists>b. cell st (selections e) tech criterion = Inr b" if "e \<in> set (evaluations st)" for e
    using cell_ok [OF wf_stateD(3) [OF assms(1) that] assms(2,3)] by blast
  from count_loop [where f = "\<lambda>e. cell st (selections e) tech criterion" and es = "evaluations st"
      and ?n0.0 = 0, OF this]
  show ?thesis by (simp add: count_selected_def selected_def)
qed

lemma map_absent_key:
  "k \<notin> fst ` set d \<Longrightarrow> map (\<lambda>(k', x). (k', if k' = k then v else x)) d = d"
  by (induction d) auto

lemma setitem_distinct:
  "distinct (map fst d) \<Longrightarrow> k \<in> fst ` set d \<Longrightarrow>
   setitem k v d = map (\<lambda>(k', x). (k', if k' = k then v else x)) d"
  unfolding setitem_def by (induction d) (auto simp: map_absent_key)

lemma append_loop:
  assumes "distinct (map fst sc0)" "set ts \<subseteq> fst ` set sc0" "distinct ts"
  shows "for_each (\<lambda>t sc. py_bind (getitem sc t) (\<lambda>l. Inr (setitem t (l @ [p t]) sc))) ts sc0 =
         Inr (map (\<lambda>(t, l). (t, if t \<in> set ts then l @ [p t] else l)) sc0)"
  using assms
proof (induction ts arbitrary: sc0)
  case Nil
  then show ?case by simp
next
  case (Cons t ts)
  have "t \<in> fst ` set sc0" using Cons.prems by simp
  from getitem_present [OF this] obtain l where l: "getitem sc0 t = Inr l" "(t, l) \<in> set sc0"
    by blast
  let ?s1 = "map (\<lambda>(k', x). (k', if k' = t then l @ [p t] else x)) sc0"
  have s1: "setitem t (l @ [p t]) sc0 = ?s1"
    using Cons.prems by (intro setitem_distinct) auto
  have k1: "map fst ?s1 = map fst sc0" by (induction sc0) auto
  have "distinct (map fst ?s1)" "set ts \<subseteq> fst ` set ?s1" "distinct ts"
    using Cons.prems k1 by (simp_all only: distinct.simps set_map [symmetric], auto)
  from Cons.IH [OF this]
  have "for_each (\<lambda>t sc. py_bind (getitem sc t) (\<lambda>l. Inr (setitem t (l @ [p t]) sc))) ts ?s1 =
        Inr (map (\<lambda>(t, l). (t, if t \<in> set ts then l @ [p t] else l)) ?s1)" .
  moreover have "map (\<lambda>(t, l). (t, if t \<in> set ts then l @ [p t] else l)) ?s1 =
        map (\<lambda>(t', l). (t', if t' \<in> set (t # ts) then l @ [p t'] else l)) sc0"
  proof -
    have "l' = l" if "(t, l') \<in> set sc0" for l'
      using that l(2) Cons.prems(1) by (meson eq_key_imp_eq_value)
    moreover have "t \<notin> set ts" using Cons.prems by simp
    ultimately show ?thesis by (auto simp: comp_def)
  qed
  ultimately show ?case by (simp add: l(1) s1)
qed

lemma score_step_wf:
  assumes "wf_state st" "evaluations st \<noteq> []" "tech \<in> set TECHNOLOGIES" "criterion \<in> set CRITERIA"
  shows "score_step st criterion tech sc =
         py_bind (getitem sc tech) (\<lambda>l. Inr (setitem tech (l @ [float_percentage st tech criterion]) sc))"
  using assms(2)
  by (simp add: score_step_def count_selected_wf [OF assms(1,3,4)] true_div_def float_percentage_def)

lemma score_row:
  assumes "wf_state st" "evaluations st \<noteq> []" "criterion \<in> set CRITERIA"
  shows "for_each (score_step st criterion) TECHNOLOGIES (map (\<lambda>t. (t, f t)) TECHNOLOGIES) =
         Inr (map (\<lambda>t. (t, f t @ [float_percentage st t criterion])) TECHNOLOGIES)"
proof -
  let ?sc = "map (\<lambda>t. (t, f t)) TECHNOLOGIES"
  have "for_each (score_step st criterion) TECHNOLOGIES ?sc =
        for_each (\<lambda>t sc. py_bind (getitem sc t)
                   (\<lambda>l. Inr (setitem t (l @ [float_percentage st t criterion]) sc))) TECHNOLOGIES ?sc"
    by (rule for_each_cong_set) (rule score_step_wf [OF assms(1,2) _ assms(3)])
  also have "\<dots> = Inr (map (\<lambda>(t, l). (t, if t \<in> set TECHNOLOGIES
                                        then l @ [float_percentage st t criterion] else l)) ?sc)"
    by (rule append_loop) (simp_all add: comp_def distinct_TECHNOLOGIES image_image)
  also have "map (\<lambda>(t, l). (t, if t \<in> set TECHNOLOGIES
                                        then l @ [float_percentage st t criterion] else l)) ?sc =
             map (\<lambda>t. (t, f t @ [float_percentage st t criterion])) TECHNOLOGIES"
    by simp
  finally show ?thesis .
qed

lemma score_rows:
  assumes "wf_state st" "evaluations st \<noteq> []" "set cs \<subseteq> set CRITERIA"
  shows "for_each (\<lambda>criterion. for_each (score_step st criterion) TECHNOLOGIES) cs
           (map (\<lambda>t. (t, f t)) TECHNOLOGIES) =
         Inr (map (\<lambda>t. (t, f t @ map (float_percentage st t) cs)) TECHNOLOGIES)"
  using assms(3)
proof (induction cs arbitrary: f)
  case Nil
  then show ?case by simp
next
  case (Cons c cs)
  have c: "c \<in> set CRITERIA" and cs: "set cs \<subseteq> set CRITERIA" using Cons.prems by simp_all
  show ?case
    using Cons.IH [OF cs, of "\<lambda>t. f t @ [float_percentage st t c]"]
    by (simp add: score_row [OF assms(1,2) c])
qed

lemma tech_scores_wf:
  assumes "wf_state st" "evaluations st \<noteq> []"
  shows "tech_scores st = Inr (map (\<lambda>t. (t, map (float_percentage st t) CRITERIA)) TECHNOLOGIES)"
  using score_rows [OF assms, of CRITERIA "\<lambda>t. []"]
  by (simp add: tech_scores_def dict_comp_distinct [OF distinct_TECHNOLOGIES])

lemma spec_percentage_range:
  "0 \<le> spec_percentage st tech criterion \<and> spec_percentage st tech criterion \<le> 100"
proof -
  let ?K = "length (filter (\<lambda>e. selected st e tech criterion) (evaluations st))"
  let ?N = "length (evaluations st)"
  have "?K \<le> ?N" by (rule length_filter_le)
  then have "real ?K / real ?N \<le> 1" by (simp add: divide_le_eq_1)
  then show ?thesis by (simp add: spec_percentage_def)
qed

lemma float_percentage_bounds:
  assumes "evaluations st \<noteq> []"
  shows "0 \<le> float_percentage st tech criterion \<and> float_percentage st tech criterion \<le> 100 \<and>
         \<bar>float_percentage st tech criterion - spec_percentage st tech criterion\<bar> \<le> 1 / 2 ^ 45"
proof -
  let ?K = "length (filter (\<lambda>e. selected st e tech criterion) (evaluations st))"
  let ?N = "length (evaluations st)"
  have "?K \<le> ?N" by (rule length_filter_le)
  moreover have "0 < ?N" using assms by simp
  ultimately show ?thesis
    unfolding float_percentage_def spec_percentage_def by (rule percentage_rounding)
qed

lemma filter_err_total:
  "(\<And>x. x \<in> set xs \<Longrightarrow> f x = Inr (p x)) \<Longrightarrow> filter_err f xs = Inr (filter p xs)"
  by (induction xs) simp_all

lemma for_each_collect_map:
  assumes "\<And>x. x \<in> set xs \<Longrightarrow> f x = Inr (g x)"
  shows "for_each (\<lambda>x acc. py_bind (f x) (\<lambda>y. Inr (acc @ [y]))) xs acc0 = Inr (acc0 @ map g xs)"
  using assms
proof (induction xs arbitrary: acc0)
  case Nil
  then show ?case by simp
next
  case (Cons x xs)
  have "\<And>z. z \<in> set xs \<Longrightarrow> f z = Inr (g z)" using Cons.prems by simp
  from Cons.IH [OF this, of "acc0 @ [g x]"] show ?case
    using Cons.prems [of x] by simp
qed

lemma row_any:
  assumes "map fst r = CRITERIA"
  shows "list_ex (\<lambda>v. v) (dict_values r) \<longleftrightarrow> (\<exists>c \<in> set CRITERIA. getitem r c = Inr True)"
proof -
  have d: "distinct (map fst r)" using assms distinct_CRITERIA by simp
  have "(\<exists>c \<in> set CRITERIA. getitem r c = Inr True) \<longleftrightarrow> (\<exists>c. (c, True) \<in> set r)"
  proof
    assume "\<exists>c \<in> set CRITERIA. getitem r c = Inr True"
    then show "\<exists>c. (c, True) \<in> set r"
      by (auto simp: getitem_eq_Inr dest: map_of_SomeD)
  next
    assume "\<exists>c. (c, True) \<in> set r"
    then obtain c where c: "(c, True) \<in> set r" by blast
    then have "c \<in> set (map fst r)" by force
    moreover have "map_of r c = Some True" using c d by simp
    ultimately show "\<exists>c \<in> set CRITERIA. getitem r c = Inr True"
      using assms by (auto simp: getitem_eq_Inr)
  qed
  moreover have "list_ex (\<lambda>v. v) (dict_values r) \<longleftrightarrow> (\<exists>c. (c, True) \<in> set r)"
    by (force simp: dict_values_def list_ex_iff)
  ultimately show ?thesis by simp
qed

lemma any_selected_wf:
  assumes "wf_state st" "e \<in> set (evaluations st)" "tech \<in> set TECHNOLOGIES"
  shows "any_selected st e tech = Inr (list_ex (selected st e tech) CRITERIA)"
proof -
  have ro: "rows_ok st (selections e)" using assms(1,2) by (rule wf_stateD(3))
  have "tech \<in> fst ` set (selections e)" using ro assms(3) by (simp add: rows_ok_keys)
  from getitem_present [OF this] obtain a where
    a: "getitem (selections e) tech = Inr a" "(tech, a) \<in> set (selections e)" by blast
  have "a \<in> snd ` set (selections e)" using a(2) by force
  then have k: "map fst (heap st a) = CRITERIA" using ro by (rule rows_okD(3) [rotated])
  have "list_ex (selected st e tech) CRITERIA \<longleftrightarrow> (\<exists>c \<in> set CRITERIA. getitem (heap st a) c = Inr True)"
    by (simp add: list_ex_iff selected_def cell_def a(1))
  then show ?thesis
    by (simp add: any_selected_def a(1) row_any [OF k])
qed

lemma display_row_wf:
  assumes "wf_state st" "e \<in> set (evaluations st)"
  shows "display_row st e = Inr (spec_summary_row st e)"
proof -
  have "filter_err (any_selected st e) TECHNOLOGIES =
        Inr (filter (\<lambda>tech. list_ex (selected st e tech) CRITERIA) TECHNOLOGIES)"
    by (rule filter_err_total) (rule any_selected_wf [OF assms])
  then show ?thesis
    by (simp add: display_row_def spec_summary_row_def spec_selected_techs_def Let_def
        setitem_new lit_def)
qed

lemma results_for_display_wf:
  assumes "wf_state st"
  shows "results_for_display st = Inr (map (spec_summary_row st) (evaluations st))"
  using for_each_collect_map [where f = "display_row st" and g = "spec_summary_row st"
      and xs = "evaluations st" and ?acc0.0 = "[]", OF display_row_wf [OF assms]]
  by (simp add: results_for_display_def)

lemma csv_row_wf:
  assumes "wf_state st" "e \<in> set (evaluations st)" "tech \<in> set TECHNOLOGIES"
  shows "csv_row st e tech = Inr (spec_csv_row st e tech)"
proof -
  let ?f = "cell st (selections e) tech"
  let ?g = "\<lambda>b. if b then check_mark else []"
  let ?r0 = "[(lit ''Evaluator'', evaluator_name e), (lit ''Timestamp'', timestamp e),
              (lit ''Technology'', tech), (lit ''Comments'', comments e)]"
  have ro: "rows_ok st (selections e)" using assms(1,2) by (rule wf_stateD(3))
  have ok: "\<exists>b. ?f c = Inr b" if "c \<in> set CRITERIA" for c
    using cell_ok [OF ro assms(3) that] by blast
  from for_each_update_keys [where f = ?f and g = ?g and cs = CRITERIA and r = ?r0, OF ok]
  have run: "csv_row st e tech = Inr (foldl (\<lambda>r c. setitem c (?g (projr (?f c))) r) ?r0 CRITERIA)"
    unfolding csv_row_def by simp
  have disj: "set CRITERIA \<inter> fst ` set ?r0 = {}"
    by (simp add: CRITERIA_def lit_def)
  have "foldl (\<lambda>r c. setitem c (?g (projr (?f c))) r) ?r0 CRITERIA =
        ?r0 @ map (\<lambda>c. (c, ?g (projr (?f c)))) CRITERIA"
    by (rule dict_comp_from [OF distinct_CRITERIA disj])
  also have "map (\<lambda>c. (c, ?g (projr (?f c)))) CRITERIA =
        map (\<lambda>c. (c, if selected st e tech c then check_mark else [])) CRITERIA"
  proof (rule map_cong [OF refl])
    fix c assume "c \<in> set CRITERIA"
    from ok [OF this] obtain b where "?f c = Inr b" by blast
    then show "(c, ?g (projr (?f c))) = (c, if selected st e tech c then check_mark else [])"
      by (simp add: selected_def)
  qed
  finally show ?thesis using run by (simp add: spec_csv_row_def)
qed

lemma csv_rows_from:
  assumes "wf_state st" "set es \<subseteq> set (evaluations st)"
  shows "for_each
           (\<lambda>eval. for_each (\<lambda>tech rows. py_bind (csv_row st eval tech) (\<lambda>r. Inr (rows @ [r]))) TECHNOLOGIES)
           es acc0 =
         Inr (acc0 @ concat (map (\<lambda>e. map (spec_csv_row st e) TECHNOLOGIES) es))"
  using assms(2)
proof (induction es arbitrary: acc0)
  case Nil
  then show ?case by simp
next
  case (Cons e es)
  have e: "e \<in> set (evaluations st)" and es: "set es \<subseteq> set (evaluations st)"
    using Cons.prems by simp_all
  have one: "for_each (\<lambda>tech rows. py_bind (csv_row st e tech) (\<lambda>r. Inr (rows @ [r]))) TECHNOLOGIES acc0 =
             Inr (acc0 @ map (spec_csv_row st e) TECHNOLOGIES)"
    by (rule for_each_collect_map) (rule csv_row_wf [OF assms(1) e])
  show ?case
    using Cons.IH [OF es, of "acc0 @ map (spec_csv_row st e) TECHNOLOGIES"]
    by (simp add: one)
qed

lemma csv_rows_wf:
  assumes "wf_state st"
  shows "csv_rows st = Inr (concat (map (\<lambda>e. map (spec_csv_row st e) TECHNOLOGIES) (evaluations st)))"
  using csv_rows_from [OF assms subset_refl, of "[]"] by (simp add: csv_rows_def)

lemma results_section_wf:
  assumes "wf_state st"
  shows "results_section st =
     Inr (if evaluations st \<noteq> [] then
            Results (map (\<lambda>t. (t, map (float_percentage st t) CRITERIA)) TECHNOLOGIES)
                    (map (spec_summary_row st) (evaluations st))
                    (concat (map (\<lambda>e. map (spec_csv_row st e) TECHNOLOGIES) (evaluations st)))
          else NoData (lit ''No evaluations submitted yet. Start evaluating above to see results!''))"
  by (simp add: results_section_def tech_scores_wf [OF assms] results_for_display_wf [OF assms]
      csv_rows_wf [OF assms])

lemma script_wf:
  assumes "wf_state st"
  shows "\<exists>st' fb res. script w st = Inr (st', fb, res) \<and> wf_state st' \<and>
           (\<exists>h'. (st', fb) = (if submit_button w
                               then submit (evaluator_input w) (comments_area w) (clock w) (st\<lparr>heap := h'\<rparr>)
                               else (st\<lparr>heap := h'\<rparr>, NoFeedback)) \<and>
                 update_selections (evaluation_table w) st = Inr (st\<lparr>heap := h'\<rparr>) \<and>
                 wf_state (st\<lparr>heap := h'\<rparr>) \<and>
                 (\<forall>a. a \<notin> snd ` set (current_selections st) \<longrightarrow> h' a = heap st a)) \<and>
           results_section st' = Inr res"
proof -
  from table_data_ok [OF assms] obtain rows where td: "table_data st = Inr rows" by blast
  from update_selections_wf [OF assms, of "evaluation_table w"] obtain h' where
    up: "update_selections (evaluation_table w) st = Inr (st\<lparr>heap := h'\<rparr>)" and
    same: "\<forall>a. a \<notin> snd ` set (current_selections st) \<longrightarrow> h' a = heap st a" and
    wf1: "wf_state (st\<lparr>heap := h'\<rparr>)"
    by blast
  let ?st1 = "st\<lparr>heap := h'\<rparr>"
  obtain st2 fb where sb: "(if submit_button w
       then submit (evaluator_input w) (comments_area w) (clock w) ?st1
       else (?st1, NoFeedback)) = (st2, fb)"
    by (cases "if submit_button w
       then submit (evaluator_input w) (comments_area w) (clock w) ?st1
       else (?st1, NoFeedback)") 
  have wf2: "wf_state st2"
  proof (cases "submit_button w")
    case True
    then have "st2 = fst (submit (evaluator_input w) (comments_area w) (clock w) ?st1)"
      using sb by simp
    then show ?thesis using submit_wf [OF wf1] by simp
  next
    case False
    then show ?thesis using sb wf1 by simp
  qed
  from results_section_wf [OF wf2] obtain res where res: "results_section st2 = Inr res" by blast
  have "script w st = Inr (st2, fb, res)"
    by (simp only: script_def td up py_bind_Inr sb prod.case res)
  then show ?thesis using wf2 sb up wf1 same res by (metis (no_types, lifting))
qed

lemma init_state_eq:
  "init_state =
     \<lparr>evaluations = [], current_evaluator = None,
      current_selections = zip TECHNOLOGIES [0 ..< 5], current_comment = [],
      heap = (\<lambda>a. if a \<in> {0 ..< 5} then map (\<lambda>c. (c, False)) CRITERIA else []),
      next_addr = 5\<rparr>"
  by (simp add: init_state_def blank_grid_eq cong: if_cong)

lemma wf_init: "wf_state init_state"
proof -
  let ?g = "zip TECHNOLOGIES [0 ..< (0::nat) + 5]"
  have gk: "map fst ?g = TECHNOLOGIES" by (rule zip_upt_keys) (rule length_TECHNOLOGIES)
  have ga: "map snd ?g = [0 ..< 0 + 5]" by (rule zip_upt_addrs) (rule length_TECHNOLOGIES)
  show ?thesis
    unfolding init_state_eq wf_state_def rows_ok_def
    using gk ga by (simp add: list_all_iff comp_def)
qed

lemma dropWhile_all: "(\<forall>c \<in> set (dropWhile P xs). P c) \<longleftrightarrow> dropWhile P xs = []"
proof
  assume all: "\<forall>c \<in> set (dropWhile P xs). P c"
  show "dropWhile P xs = []"
  proof (rule ccontr)
    assume ne: "dropWhile P xs \<noteq> []"
    then have "\<not> P (hd (dropWhile P xs))" by (rule hd_dropWhile)
    moreover have "hd (dropWhile P xs) \<in> set (dropWhile P xs)" using ne by simp
    ultimately show False using all by blast
  qed
next
  assume e: "dropWhile P xs = []"
  show "\<forall>c \<in> set (dropWhile P xs). P c" unfolding e by simp
qed

lemma strip_blank_iff: "strip x = [] \<longleftrightarrow> (\<forall>c \<in> set x. isspace c)"
proof -
  have "strip x = [] \<longleftrightarrow> (\<forall>c \<in> set (dropWhile isspace x). isspace c)"
    by (simp add: strip_def dropWhile_eq_Nil_conv)
  also have "\<dots> \<longleftrightarrow> dropWhile isspace x = []" by (rule dropWhile_all)
  also have "\<dots> \<longleftrightarrow> (\<forall>c \<in> set x. isspace c)" by (simp add: dropWhile_eq_Nil_conv)
  finally show ?thesis .
qed

lemma submit_frame:
  assumes "wf_state st"
  shows "\<exists>new. evaluations (fst (submit name_text comment_text now st)) = evaluations st @ new \<and>
           new = (if strip name_text = [] then []
                  else [\<lparr>evaluator_name = strip name_text, timestamp = isoformat_seconds now,
                         selections = current_selections st, comments = strip comment_text\<rparr>])"
    and "a < next_addr st \<Longrightarrow> heap (fst (submit name_text comment_text now st)) a = heap st a"
  by (cases "strip name_text = []"; simp add: submit_blank submit_ok)+

lemma script_frame:
  assumes "wf_state st"
  shows "\<exists>st' fb res. script w st = Inr (st', fb, res) \<and> wf_state st' \<and>
           evaluations st' = evaluations st @
             (if submit_button w \<and> strip (evaluator_input w) \<noteq> []
              then [\<lparr>evaluator_name = strip (evaluator_input w),
                     timestamp = isoformat_seconds (clock w),
                     selections = current_selections st,
                     comments = strip (comments_area w)\<rparr>]
              else []) \<and>
           (\<forall>e \<in> set (evaluations st). \<forall>a \<in> snd ` set (selections e). heap st' a = heap st a)"
proof -
  from script_wf [OF assms, of w] obtain st' fb res h' where
    run: "script w st = Inr (st', fb, res)" and wf': "wf_state st'" and
    sb: "(st', fb) = (if submit_button w
                      then submit (evaluator_input w) (comments_area w) (clock w) (st\<lparr>heap := h'\<rparr>)
                      else (st\<lparr>heap := h'\<rparr>, NoFeedback))" and
    wf1: "wf_state (st\<lparr>heap := h'\<rparr>)" and
    same: "\<forall>a. a \<notin> snd ` set (current_selections st) \<longrightarrow> h' a = heap st a"
    by blast
  let ?st1 = "st\<lparr>heap := h'\<rparr>"
  have ev: "evaluations st' = evaluations st @
             (if submit_button w \<and> strip (evaluator_input w) \<noteq> []
              then [\<lparr>evaluator_name = strip (evaluator_input w),
                     timestamp = isoformat_seconds (clock w),
                     selections = current_selections st,
                     comments = strip (comments_area w)\<rparr>]
              else [])"
  proof (cases "submit_button w")
    case True
    then have "st' = fst (submit (evaluator_input w) (comments_area w) (clock w) ?st1)"
      using sb by (metis fst_conv)
    then show ?thesis using submit_frame(1) [OF wf1] True by auto
  next
    case False
    then show ?thesis using sb by simp
  qed
  have hp: "heap st' a = heap st a" if e: "e \<in> set (evaluations st)" and a: "a \<in> snd ` set (selections e)" for e a
  proof -
    have "a \<notin> snd ` set (current_selections st)" using assms e a by (rule wf_stateD(4))
    then have h1: "h' a = heap st a" using same by simp
    have "a < next_addr st" using wf_stateD(3) [OF assms e] a by (rule rows_okD(2))
    then have lt: "a < next_addr ?st1" by simp
    show ?thesis
    proof (cases "submit_button w")
      case True
      then have "st' = fst (submit (evaluator_input w) (comments_area w) (clock w) ?st1)"
        using sb by (metis fst_conv)
      then show ?thesis using submit_frame(2) [OF wf1 lt] h1 by simp
    next
      case False
      then show ?thesis using sb h1 by simp
    qed
  qed
  show ?thesis using run wf' ev hp by blast
qed

section \<open>Rejected submissions\<close>

text \<open>
  C2. A submit whose evaluator name is empty after trimming (the name has only whitespace,
  or nothing at all) fails with the validation message and changes nothing: the submit
  step returns the state it was given, and the script run in which the button was clicked
  leaves the store (hence its length), the live grid and the comment field as they were.
\<close>

theorem C2_blank_name_rejected:
  assumes "strip (evaluator_input w) = []" and "submit_button w" and "wf_state st"
  shows "submit (evaluator_input w) (comments_area w) (clock w) st =
           (st, ErrorMessage (lit ''Please enter your name before submitting.'')) \<and>
         (\<exists>st' res. script w st =
              Inr (st', ErrorMessage (lit ''Please enter your name before submitting.''), res) \<and>
            evaluations st' = evaluations st \<and>
            length (evaluations st') = length (evaluations st) \<and>
            current_selections st' = current_selections st \<and>
            current_comment st' = current_comment st)"
proof -
  from script_wf [OF assms(3), of w] obtain st' fb res h' where
    run: "script w st = Inr (st', fb, res)" and
    sb: "(st', fb) = (if submit_button w
                      then submit (evaluator_input w) (comments_area w) (clock w) (st\<lparr>heap := h'\<rparr>)
                      else (st\<lparr>heap := h'\<rparr>, NoFeedback))"
    by blast
  have "(st', fb) = (st\<lparr>heap := h'\<rparr>, ErrorMessage (lit ''Please enter your name before submitting.''))"
    using sb assms(1,2) by (simp add: submit_blank)
  then have "st' = st\<lparr>heap := h'\<rparr>" "fb = ErrorMessage (lit ''Please enter your name before submitting.'')"
    by simp_all
  then show ?thesis using run assms(1) by (simp add: submit_blank)
qed

theorem C2_blank_name_rejected_witness:
  "submit (lit ''  '') (lit ''fine'') \<lparr>year = 2026, month = 1, day = 5, hour = 3, minute = 0, second = 59, microsecond = 5\<rparr> init_state =
     (init_state, ErrorMessage (lit ''Please enter your name before submitting.'')) \<and>
   (\<exists>st' res.
      script \<lparr>evaluator_input = lit ''  '', evaluation_table = (\<lambda>i c. False),
              comments_area = lit ''fine'', submit_button = True,
              clock = \<lparr>year = 2026, month = 1, day = 5, hour = 3, minute = 0, second = 59, microsecond = 5\<rparr>\<rparr>
        init_state =
        Inr (st', ErrorMessage (lit ''Please enter your name before submitting.''), res) \<and>
      evaluations st' = [] \<and> length (evaluations st') = 0)"
proof -
  have b: "strip (lit ''  '') = []" by (simp add: strip_def lit_def isspace_def)
  have e: "evaluations init_state = []" by (simp add: init_state_eq)
  show ?thesis
    using C2_blank_name_rejected [of "\<lparr>evaluator_input = lit ''  '', evaluation_table = (\<lambda>i c. False),
              comments_area = lit ''fine'', submit_button = True,
              clock = \<lparr>year = 2026, month = 1, day = 5, hour = 3, minute = 0, second = 59, microsecond = 5\<rparr>\<rparr>" init_state]
      b wf_init e
    by auto
qed

section \<open>The guard on an empty store\<close>

lemma py_bind_eq_Inl: "py_bind m f = Inl e \<longleftrightarrow> m = Inl e \<or> (\<exists>x. m = Inr x \<and> f x = Inl e)"
  by (cases m) simp_all

lemma for_each_Inl:
  "for_each body xs s = Inl e \<Longrightarrow> \<exists>x \<in> set xs. \<exists>s'. body x s' = Inl e"
proof (induction xs arbitrary: s)
  case Nil
  then show ?case by simp
next
  case (Cons x xs)
  then show ?case by (auto simp: py_bind_eq_Inl)
qed

lemma filter_err_Inl: "filter_err f xs = Inl e \<Longrightarrow> \<exists>x \<in> set xs. f x = Inl e"
  by (induction xs) (auto simp: py_bind_eq_Inl)

lemma getitem_no_zero_div: "getitem d k \<noteq> Inl ZeroDivisionError"
  by (simp add: getitem_def split: option.splits)

lemma cell_no_zero_div: "cell st g tech criterion \<noteq> Inl ZeroDivisionError"
  by (simp add: cell_def py_bind_eq_Inl getitem_no_zero_div)

lemma count_selected_no_zero_div: "count_selected st tech criterion \<noteq> Inl ZeroDivisionError"
proof
  assume "count_selected st tech criterion = Inl ZeroDivisionError"
  from for_each_Inl [OF this [unfolded count_selected_def]]
  show False by (auto simp: py_bind_eq_Inl cell_no_zero_div)
qed

lemma score_step_zero_div:
  "score_step st criterion tech sc = Inl ZeroDivisionError \<Longrightarrow> evaluations st = []"
  by (auto simp: score_step_def py_bind_eq_Inl count_selected_no_zero_div getitem_no_zero_div
      true_div_def split: if_splits)

lemma tech_scores_zero_div: "tech_scores st = Inl ZeroDivisionError \<Longrightarrow> evaluations st = []"
proof -
  assume "tech_scores st = Inl ZeroDivisionError"
  from for_each_Inl [OF this [unfolded tech_scores_def]] obtain c s' where
    "for_each (score_step st c) TECHNOLOGIES s' = Inl ZeroDivisionError" by blast
  from for_each_Inl [OF this] show ?thesis by (auto dest: score_step_zero_div)
qed

lemma results_for_display_no_zero_div: "results_for_display st \<noteq> Inl ZeroDivisionError"
proof
  assume "results_for_display st = Inl ZeroDivisionError"
  from for_each_Inl [OF this [unfolded results_for_display_def]] obtain e where
    "display_row st e = Inl ZeroDivisionError" by (auto simp: py_bind_eq_Inl)
  then have "filter_err (any_selected st e) TECHNOLOGIES = Inl ZeroDivisionError"
    by (simp add: display_row_def Let_def py_bind_eq_Inl)
  from filter_err_Inl [OF this] show False
    by (auto simp: any_selected_def py_bind_eq_Inl getitem_no_zero_div)
qed

lemma csv_rows_no_zero_div: "csv_rows st \<noteq> Inl ZeroDivisionError"
proof
  assume "csv_rows st = Inl ZeroDivisionError"
  from for_each_Inl [OF this [unfolded csv_rows_def]] obtain e s' where
    "for_each (\<lambda>tech rows. py_bind (csv_row st e tech) (\<lambda>r. Inr (rows @ [r]))) TECHNOLOGIES s' =
       Inl ZeroDivisionError" by blast
  from for_each_Inl [OF this] obtain t where "csv_row st e t = Inl ZeroDivisionError"
    by (auto simp: py_bind_eq_Inl)
  from for_each_Inl [OF this [unfolded csv_row_def]] show False
    by (auto simp: py_bind_eq_Inl cell_no_zero_div)
qed

text \<open>
  C9. With an empty store the results section is the "no data yet" message and nothing
  else is computed; and in no state at all does the results section end in a division by
  zero: the aggregation runs only behind the guard on a non-empty store.
\<close>

theorem C9_empty_store_shows_no_data:
  "(evaluations st = [] \<longrightarrow>
      results_section st =
        Inr (NoData (lit ''No evaluations submitted yet. Start evaluating above to see results!''))) \<and>
   results_section st \<noteq> Inl ZeroDivisionError"
proof (cases "evaluations st = []")
  case True
  then show ?thesis by (simp add: results_section_def)
next
  case False
  have "results_section st \<noteq> Inl ZeroDivisionError"
    using False tech_scores_zero_div [of st] results_for_display_no_zero_div [of st]
      csv_rows_no_zero_div [of st]
    by (auto simp: results_section_def py_bind_eq_Inl)
  then show ?thesis using False by simp
qed

theorem C9_empty_store_shows_no_data_witness:
  "evaluations init_state = [] \<and>
   results_section init_state =
     Inr (NoData (lit ''No evaluations submitted yet. Start evaluating above to see results!'')) \<and>
   true_div 0 (length (evaluations init_state)) = Inl ZeroDivisionError"
proof -
  have e: "evaluations init_state = []" by (simp add: init_state_eq)
  show ?thesis
    using C9_empty_store_shows_no_data [of init_state] e by (simp add: true_div_def)
qed

section \<open>Successful submissions\<close>

lemma distinct_values_key:
  assumes "distinct (map snd g)" "(t, a) \<in> set g" "(t', a) \<in> set g"
  shows "t = t'"
proof -
  have "inj_on snd (set g)" using assms(1) by (simp add: distinct_map)
  moreover have "snd (t, a) = snd (t', a)" by simp
  ultimately have "(t, a) = (t', a)" using assms(2,3) by (rule inj_onD)
  then show ?thesis by simp
qed

lemma update_loop_values:
  assumes "\<forall>(i, t) \<in> set its. t \<in> fst ` set (current_selections st)"
    and "distinct (map snd its)"
    and "distinct (map snd (current_selections st))"
  shows "\<exists>h'. for_each (\<lambda>(idx, tech). for_each (\<lambda>criterion. store_cell tech criterion (df idx criterion)) CRITERIA) its st
               = Inr (st\<lparr>heap := h'\<rparr>) \<and>
           (\<forall>i t a. (i, t) \<in> set its \<and> getitem (current_selections st) t = Inr a \<longrightarrow>
                h' a = foldl (\<lambda>r c. setitem c (df i c) r) (heap st a) CRITERIA) \<and>
           (\<forall>b. (\<forall>i t. (i, t) \<in> set its \<longrightarrow> getitem (current_selections st) t \<noteq> Inr b) \<longrightarrow>
                h' b = heap st b)"
  using assms
proof (induction its arbitrary: st)
  case Nil
  have "st\<lparr>heap := heap st\<rparr> = st" by simp
  then show ?case by (intro exI [of _ "heap st"]) simp
next
  case (Cons it its)
  obtain i t where it: "it = (i, t)" by (cases it)
  let ?g = "current_selections st"
  have "t \<in> fst ` set ?g" using Cons.prems(1) it by auto
  from getitem_present [OF this] obtain a where a: "getitem ?g t = Inr a" "(t, a) \<in> set ?g"
    by blast
  let ?r = "foldl (\<lambda>r c. setitem c (df i c) r) (heap st a) CRITERIA"
  let ?st1 = "st\<lparr>heap := (heap st)(a := ?r)\<rparr>"
  have one: "for_each (\<lambda>criterion. store_cell t criterion (df i criterion)) CRITERIA st = Inr ?st1"
    using store_loop [OF a(1)] .
  have p1: "\<forall>(i, t) \<in> set its. t \<in> fst ` set (current_selections ?st1)"
    using Cons.prems(1) by simp
  have p2: "distinct (map snd its)" using Cons.prems(2) by simp
  have p3: "distinct (map snd (current_selections ?st1))" using Cons.prems(3) by simp
  from Cons.IH [OF p1 p2 p3] obtain h' where
    run: "for_each (\<lambda>(idx, tech). for_each (\<lambda>criterion. store_cell tech criterion (df idx criterion)) CRITERIA) its ?st1
            = Inr (?st1\<lparr>heap := h'\<rparr>)" and
    vals0: "\<forall>i t a. (i, t) \<in> set its \<and> getitem (current_selections ?st1) t = Inr a \<longrightarrow>
                h' a = foldl (\<lambda>r c. setitem c (df i c) r) (heap ?st1 a) CRITERIA" and
    same0: "\<forall>b. (\<forall>i t. (i, t) \<in> set its \<longrightarrow> getitem (current_selections ?st1) t \<noteq> Inr b) \<longrightarrow>
                h' b = heap ?st1 b"
    by (elim exE conjE)
  have st1': "?st1\<lparr>heap := h'\<rparr> = st\<lparr>heap := h'\<rparr>" by simp
  have c1: "for_each (\<lambda>(idx, tech). for_each (\<lambda>criterion. store_cell tech criterion (df idx criterion)) CRITERIA) (it # its) st
               = Inr (st\<lparr>heap := h'\<rparr>)"
    unfolding it using run by (simp only: for_each.simps prod.case one py_bind_Inr st1')
  have tnot: "t \<notin> snd ` set its" using Cons.prems(2) it by (simp add: image_iff)
  have other: "b \<noteq> a" if "(j, u) \<in> set its" "getitem ?g u = Inr b" for j u b
  proof
    assume "b = a"
    then have "(u, a) \<in> set ?g" using that(2) by (auto simp: getitem_eq_Inr dest: map_of_SomeD)
    then have "u = t" using a(2) Cons.prems(3) by (metis distinct_values_key)
    then show False using that(1) tnot by force
  qed
  have c2: "h' b = foldl (\<lambda>r c. setitem c (df j c) r) (heap st b) CRITERIA"
    if "(j, u) \<in> set (it # its)" "getitem ?g u = Inr b" for j u b
  proof (cases "(j, u) = (i, t)")
    case True
    then have ba: "b = a" using that(2) a(1) by simp
    have "\<forall>j u. (j, u) \<in> set its \<longrightarrow> getitem (current_selections ?st1) u \<noteq> Inr a"
      using other by auto
    then have "h' a = heap ?st1 a" using same0 by blast
    then show ?thesis using True ba by simp
  next
    case False
    then have mem: "(j, u) \<in> set its" using that(1) it by auto
    have "b \<noteq> a" using other [OF mem that(2)] .
    moreover have "h' b = foldl (\<lambda>r c. setitem c (df j c) r) (heap ?st1 b) CRITERIA"
      using vals0 mem that(2) by simp
    ultimately show ?thesis by simp
  qed
  have c3: "h' b = heap st b"
    if "\<forall>j u. (j, u) \<in> set (it # its) \<longrightarrow> getitem ?g u \<noteq> Inr b" for b
  proof -
    have "b \<noteq> a" using that a(1) it by auto
    moreover have "h' b = heap ?st1 b" using same0 that by simp
    ultimately show ?thesis by simp
  qed
  show ?case
    apply (intro exI [of _ h'] conjI allI impI c1)
    subgoal for j u b using c2 [of j u b] by blast
    subgoal for b using c3 [of b] by blast
    done
qed

lemma update_selections_cells:
  assumes "wf_state st"
  shows "\<exists>h'. update_selections df st = Inr (st\<lparr>heap := h'\<rparr>) \<and>
           (\<forall>i c. i < length TECHNOLOGIES \<and> c \<in> set CRITERIA \<longrightarrow>
              cell (st\<lparr>heap := h'\<rparr>) (current_selections st) (TECHNOLOGIES ! i) c = Inr (df i c))"
proof -
  let ?g = "current_selections st"
  have ro: "rows_ok st ?g" using assms by (rule wf_stateD(1))
  have p1: "\<forall>(i, t) \<in> set (enumerate 0 TECHNOLOGIES). t \<in> fst ` set ?g"
    using rows_ok_keys [OF ro] by (auto simp: in_set_enumerate_eq)
  have p2: "distinct (map snd (enumerate 0 TECHNOLOGIES))"
    by (simp add: distinct_TECHNOLOGIES)
  from update_loop_values [OF p1 p2 wf_stateD(2) [OF assms], of df] obtain h' where
    run: "update_selections df st = Inr (st\<lparr>heap := h'\<rparr>)" and
    vals: "\<forall>i t a. (i, t) \<in> set (enumerate 0 TECHNOLOGIES) \<and> getitem ?g t = Inr a \<longrightarrow>
                h' a = foldl (\<lambda>r c. setitem c (df i c) r) (heap st a) CRITERIA"
    unfolding update_selections_def by (elim exE conjE)
  have "cell (st\<lparr>heap := h'\<rparr>) ?g (TECHNOLOGIES ! i) c = Inr (df i c)"
    if i: "i < length TECHNOLOGIES" and c: "c \<in> set CRITERIA" for i c
  proof -
    let ?t = "TECHNOLOGIES ! i"
    have mem: "(i, ?t) \<in> set (enumerate 0 TECHNOLOGIES)" using i by (simp add: in_set_enumerate_eq)
    have "?t \<in> fst ` set ?g" using rows_ok_keys [OF ro] i by simp
    from getitem_present [OF this] obtain a where a: "getitem ?g ?t = Inr a" by blast
    have "h' a = foldl (\<lambda>r c. setitem c (df i c) r) (heap st a) CRITERIA"
      using vals mem a by blast
    then have "map_of (h' a) c = Some (df i c)" using c by (simp add: map_of_fold_setitem)
    then show ?thesis by (simp add: cell_def a getitem_eq_Inr)
  qed
  then show ?thesis using run by blast
qed

lemma cell_heap_cong:
  assumes "\<And>a. a \<in> snd ` set g \<Longrightarrow> heap st' a = heap st a"
  shows "cell st' g tech criterion = cell st g tech criterion"
proof (cases "getitem g tech")
  case (Inl e)
  then show ?thesis by (simp add: cell_def)
next
  case (Inr a)
  then have "(tech, a) \<in> set g" by (auto simp: getitem_eq_Inr dest: map_of_SomeD)
  then have "a \<in> snd ` set g" by force
  then show ?thesis using Inr assms by (simp add: cell_def)
qed

lemma blank_cells:
  assumes "tech \<in> set TECHNOLOGIES" "criterion \<in> set CRITERIA"
  shows "cell (st\<lparr>heap := (\<lambda>a. if a \<in> {n ..< n + 5} then map (\<lambda>c. (c, False)) CRITERIA else h a)\<rparr>)
           (zip TECHNOLOGIES [n ..< n + 5]) tech criterion = Inr False"
proof -
  let ?g = "zip TECHNOLOGIES [n ..< n + 5]"
  have gk: "map fst ?g = TECHNOLOGIES" by (rule zip_upt_keys) (rule length_TECHNOLOGIES)
  have ga: "map snd ?g = [n ..< n + 5]" by (rule zip_upt_addrs) (rule length_TECHNOLOGIES)
  have "tech \<in> fst ` set ?g" using assms(1) gk by (metis set_map)
  from getitem_present [OF this] obtain a where a: "getitem ?g tech = Inr a" "(tech, a) \<in> set ?g"
    by blast
  have "a \<in> set (map snd ?g)" using a(2) by force
  then have ar: "a \<in> {n ..< n + 5}" unfolding ga by simp
  have "map_of (map (\<lambda>c. (c, False)) CRITERIA) criterion = Some False"
    using assms(2) by (simp add: map_of_map_restrict)
  then show ?thesis using ar by (simp add: cell_def a(1) getitem_eq_Inr)
qed

lemma script_submit_ok:
  assumes "wf_state st" "submit_button w" "strip (evaluator_input w) \<noteq> []"
  shows "\<exists>st' res. script w st =
           Inr (st', SuccessMessage ([9989] @ lit '' Thank you, '' @ evaluator_input w @
                                     lit ''! Your evaluation has been submitted.''), res) \<and>
         wf_state st' \<and>
         evaluations st' = evaluations st @
           [\<lparr>evaluator_name = strip (evaluator_input w), timestamp = isoformat_seconds (clock w),
             selections = current_selections st, comments = strip (comments_area w)\<rparr>] \<and>
         (\<forall>i c. i < length TECHNOLOGIES \<and> c \<in> set CRITERIA \<longrightarrow>
            cell st' (current_selections st) (TECHNOLOGIES ! i) c = Inr (evaluation_table w i c)) \<and>
         (\<forall>t c. t \<in> set TECHNOLOGIES \<and> c \<in> set CRITERIA \<longrightarrow>
            cell st' (current_selections st') t c = Inr False) \<and>
         current_comment st' = [] \<and> current_evaluator st' = current_evaluator st \<and>
         results_section st' = Inr res"
proof -
  from script_wf [OF assms(1), of w] obtain st' fb res h' where
    run: "script w st = Inr (st', fb, res)" and wf': "wf_state st'" and
    sb: "(st', fb) = (if submit_button w
                      then submit (evaluator_input w) (comments_area w) (clock w) (st\<lparr>heap := h'\<rparr>)
                      else (st\<lparr>heap := h'\<rparr>, NoFeedback))" and
    up: "update_selections (evaluation_table w) st = Inr (st\<lparr>heap := h'\<rparr>)" and
    wf1: "wf_state (st\<lparr>heap := h'\<rparr>)" and
    res: "results_section st' = Inr res"
    by blast
  let ?st1 = "st\<lparr>heap := h'\<rparr>"
  let ?n = "next_addr st"
  from update_selections_cells [OF assms(1), of "evaluation_table w"] obtain h'' where
    up2: "update_selections (evaluation_table w) st = Inr (st\<lparr>heap := h''\<rparr>)" and
    cells: "\<forall>i c. i < length TECHNOLOGIES \<and> c \<in> set CRITERIA \<longrightarrow>
              cell (st\<lparr>heap := h''\<rparr>) (current_selections st) (TECHNOLOGIES ! i) c = Inr (evaluation_table w i c)"
    by blast
  have "heap (st\<lparr>heap := h'\<rparr>) = heap (st\<lparr>heap := h''\<rparr>)" using up up2 by simp
  then have hh: "h'' = h'" by simp
  have sub: "(st', fb) = submit (evaluator_input w) (comments_area w) (clock w) ?st1"
    using sb assms(2) by simp
  note ok = submit_ok [OF assms(3), of "comments_area w" "clock w" ?st1]
  have st': "st' = st\<lparr>evaluations := evaluations st @
            [\<lparr>evaluator_name = strip (evaluator_input w), timestamp = isoformat_seconds (clock w),
              selections = current_selections st, comments = strip (comments_area w)\<rparr>],
         current_selections := zip TECHNOLOGIES [?n ..< ?n + 5],
         current_comment := [],
         heap := (\<lambda>a. if a \<in> {?n ..< ?n + 5} then map (\<lambda>c. (c, False)) CRITERIA else h' a),
         next_addr := ?n + 5\<rparr>"
    and fb: "fb = SuccessMessage ([9989] @ lit '' Thank you, '' @ evaluator_input w @
                                     lit ''! Your evaluation has been submitted.'')"
    using sub unfolding ok by (simp_all cong: if_cong)
  have old: "heap st' a = h' a" if "a \<in> snd ` set (current_selections st)" for a
  proof -
    have "a < ?n" using wf_stateD(1) [OF assms(1)] that by (rule rows_okD(2))
    then show ?thesis unfolding st' by simp
  qed
  have c1: "cell st' (current_selections st) (TECHNOLOGIES ! i) c = Inr (evaluation_table w i c)"
    if "i < length TECHNOLOGIES \<and> c \<in> set CRITERIA" for i c
  proof -
    have "cell st' (current_selections st) (TECHNOLOGIES ! i) c =
          cell ?st1 (current_selections st) (TECHNOLOGIES ! i) c"
      by (rule cell_heap_cong) (simp add: old)
    then show ?thesis using cells that hh by simp
  qed
  have c2: "cell st' (current_selections st') t c = Inr False"
    if "t \<in> set TECHNOLOGIES \<and> c \<in> set CRITERIA" for t c
  proof -
    have "cell (st'\<lparr>heap := (\<lambda>a. if a \<in> {?n ..< ?n + 5} then map (\<lambda>c. (c, False)) CRITERIA else h' a)\<rparr>)
           (zip TECHNOLOGIES [?n ..< ?n + 5]) t c = Inr False"
      using that by (intro blank_cells) simp_all
    moreover have "st'\<lparr>heap := (\<lambda>a. if a \<in> {?n ..< ?n + 5} then map (\<lambda>c. (c, False)) CRITERIA else h' a)\<rparr> = st'"
      unfolding st' by simp
    moreover have "current_selections st' = zip TECHNOLOGIES [?n ..< ?n + 5]"
      unfolding st' by simp
    ultimately show ?thesis by simp
  qed
  have ev: "evaluations st' = evaluations st @
           [\<lparr>evaluator_name = strip (evaluator_input w), timestamp = isoformat_seconds (clock w),
             selections = current_selections st, comments = strip (comments_area w)\<rparr>]"
    and cc: "current_comment st' = []" and ce: "current_evaluator st' = current_evaluator st"
    unfolding st' by simp_all
  show ?thesis
    using run [unfolded fb] wf' ev c1 c2 cc ce res by blast
qed

lemma length_decimal: "0 < k \<Longrightarrow> n < 10 ^ k \<Longrightarrow> length (decimal n) \<le> k"
proof (induction k arbitrary: n)
  case 0
  then show ?case by simp
next
  case (Suc k)
  show ?case
  proof (cases "n < 10")
    case True
    then show ?thesis by (subst decimal.simps) simp
  next
    case False
    then have k: "0 < k" using Suc.prems by (cases k) auto
    have "n div 10 < 10 ^ k" using Suc.prems(2) by (simp add: less_mult_imp_div_less mult.commute)
    from Suc.IH [OF k this] show ?thesis using False by (subst decimal.simps) simp
  qed
qed

lemma length_zero_padded: "0 < w \<Longrightarrow> n < 10 ^ w \<Longrightarrow> length (zero_padded w n) = w"
  using length_decimal [of w n] by (simp add: zero_padded_def)

lemma length_isoformat_seconds:
  assumes "valid_datetime t"
  shows "length (isoformat_seconds t) = 19"
proof -
  have "length (zero_padded 4 (year t)) = 4" "length (zero_padded 2 (month t)) = 2"
    "length (zero_padded 2 (day t)) = 2" "length (zero_padded 2 (hour t)) = 2"
    "length (zero_padded 2 (minute t)) = 2" "length (zero_padded 2 (second t)) = 2"
    using assms by (simp_all add: valid_datetime_def length_zero_padded)
  then show ?thesis by (simp add: isoformat_seconds_def lit_def)
qed

lemma isoformat_seconds_precision:
  "isoformat_seconds (t\<lparr>microsecond := m\<rparr>) = isoformat_seconds t"
  by (simp add: isoformat_seconds_def)

lemma example_timestamp: "isoformat_seconds example_clock = lit ''2026-01-05T03:00:59''"
  by code_simp

lemma alice_name: "strip (lit '' Alice '') = lit ''Alice''"
  by (simp add: strip_def lit_def isspace_def)

lemma alice_comment: "strip (lit ''good fit'') = lit ''good fit''"
  by (simp add: strip_def lit_def isspace_def)

text \<open>
  C3. A script run in which the button is clicked with a name that is not empty after
  trimming appends exactly one record to the store. The record carries the trimmed name,
  the clock printed to the second (nineteen characters, the microseconds dropped), the
  trimmed comment, and a selection matrix that reads, cell by cell, as the grid that was
  submitted. After the run every cell of the live grid is false.
\<close>

theorem C3_valid_submit_appends_and_resets:
  assumes "wf_state st" and "submit_button w" and "strip (evaluator_input w) \<noteq> []"
    and "valid_datetime (clock w)"
  shows "\<exists>st' fb res e.
           script w st = Inr (st', fb, res) \<and>
           evaluations st' = evaluations st @ [e] \<and>
           length (evaluations st') = length (evaluations st) + 1 \<and>
           evaluator_name e = strip (evaluator_input w) \<and>
           comments e = strip (comments_area w) \<and>
           timestamp e = isoformat_seconds (clock w) \<and>
           length (timestamp e) = 19 \<and>
           timestamp e = isoformat_seconds ((clock w)\<lparr>microsecond := 0\<rparr>) \<and>
           (\<forall>i c. i < length TECHNOLOGIES \<and> c \<in> set CRITERIA \<longrightarrow>
              cell st' (selections e) (TECHNOLOGIES ! i) c = Inr (evaluation_table w i c)) \<and>
           (\<forall>t c. t \<in> set TECHNOLOGIES \<and> c \<in> set CRITERIA \<longrightarrow>
              cell st' (current_selections st') t c = Inr False)"
proof -
  let ?e = "\<lparr>evaluator_name = strip (evaluator_input w), timestamp = isoformat_seconds (clock w),
             selections = current_selections st, comments = strip (comments_area w)\<rparr>"
  from script_submit_ok [OF assms(1,2,3)] obtain st' res where
    run: "script w st =
           Inr (st', SuccessMessage ([9989] @ lit '' Thank you, '' @ evaluator_input w @
                                     lit ''! Your evaluation has been submitted.''), res)" and
    ev: "evaluations st' = evaluations st @ [?e]" and
    c1: "\<forall>i c. i < length TECHNOLOGIES \<and> c \<in> set CRITERIA \<longrightarrow>
            cell st' (current_selections st) (TECHNOLOGIES ! i) c = Inr (evaluation_table w i c)" and
    c2: "\<forall>t c. t \<in> set TECHNOLOGIES \<and> c \<in> set CRITERIA \<longrightarrow>
            cell st' (current_selections st') t c = Inr False"
    by blast
  let ?fb = "SuccessMessage ([9989] @ lit '' Thank you, '' @ evaluator_input w @
                            lit ''! Your evaluation has been submitted.'')"
  have len: "length (isoformat_seconds (clock w)) = 19"
    using length_isoformat_seconds [OF assms(4)] .
  have "script w st = Inr (st', ?fb, res) \<and>
           evaluations st' = evaluations st @ [?e] \<and>
           length (evaluations st') = length (evaluations st) + 1 \<and>
           evaluator_name ?e = strip (evaluator_input w) \<and>
           comments ?e = strip (comments_area w) \<and>
           timestamp ?e = isoformat_seconds (clock w) \<and>
           length (timestamp ?e) = 19 \<and>
           timestamp ?e = isoformat_seconds ((clock w)\<lparr>microsecond := 0\<rparr>) \<and>
           (\<forall>i c. i < length TECHNOLOGIES \<and> c \<in> set CRITERIA \<longrightarrow>
              cell st' (selections ?e) (TECHNOLOGIES ! i) c = Inr (evaluation_table w i c)) \<and>
           (\<forall>t c. t \<in> set TECHNOLOGIES \<and> c \<in> set CRITERIA \<longrightarrow>
              cell st' (current_selections st') t c = Inr False)"
    using run ev c1 c2 len by (simp add: isoformat_seconds_precision)
  then show ?thesis
    by (intro exI [of _ st'] exI [of _ ?fb] exI [of _ res] exI [of _ ?e])
qed

theorem C3_valid_submit_appends_and_resets_witness:
  "\<exists>st' fb res e.
     script alice_inputs init_state = Inr (st', fb, res) \<and>
     evaluations st' = [e] \<and>
     evaluator_name e = lit ''Alice'' \<and>
     comments e = lit ''good fit'' \<and>
     timestamp e = lit ''2026-01-05T03:00:59'' \<and>
     cell st' (selections e) (lit ''Tech A'') (lit ''Criteria 1'') = Inr True \<and>
     cell st' (selections e) (lit ''Tech A'') (lit ''Criteria 2'') = Inr False \<and>
     cell st' (current_selections st') (lit ''Tech A'') (lit ''Criteria 1'') = Inr False"
proof -
  have b: "submit_button alice_inputs" by (simp add: alice_inputs_def)
  have n: "strip (evaluator_input alice_inputs) \<noteq> []"
    by (simp add: alice_inputs_def alice_name) (simp add: lit_def)
  have v: "valid_datetime (clock alice_inputs)"
    by (simp add: alice_inputs_def example_clock_def valid_datetime_def)
  from C3_valid_submit_appends_and_resets [OF wf_init b n v] obtain st' fb res e where
    run: "script alice_inputs init_state = Inr (st', fb, res)" and
    ev: "evaluations st' = evaluations init_state @ [e]" and
    f: "evaluator_name e = strip (evaluator_input alice_inputs)"
       "comments e = strip (comments_area alice_inputs)"
       "timestamp e = isoformat_seconds (clock alice_inputs)" and
    c1: "\<forall>i c. i < length TECHNOLOGIES \<and> c \<in> set CRITERIA \<longrightarrow>
            cell st' (selections e) (TECHNOLOGIES ! i) c = Inr (evaluation_table alice_inputs i c)" and
    c2: "\<forall>t c. t \<in> set TECHNOLOGIES \<and> c \<in> set CRITERIA \<longrightarrow>
            cell st' (current_selections st') t c = Inr False"
    by blast
  have t0: "TECHNOLOGIES ! 0 = lit ''Tech A''" "0 < length TECHNOLOGIES"
    "lit ''Tech A'' \<in> set TECHNOLOGIES"
    by (simp_all add: TECHNOLOGIES_def)
  have cr: "lit ''Criteria 1'' \<in> set CRITERIA" "lit ''Criteria 2'' \<in> set CRITERIA"
    by (simp_all add: CRITERIA_def)
  have a1: "cell st' (selections e) (lit ''Tech A'') (lit ''Criteria 1'') = Inr True"
    using c1 [rule_format, of 0 "lit ''Criteria 1''"] t0 cr by (simp add: alice_inputs_def)
  have a2: "cell st' (selections e) (lit ''Tech A'') (lit ''Criteria 2'') = Inr False"
    using c1 [rule_format, of 0 "lit ''Criteria 2''"] t0 cr by (simp add: alice_inputs_def lit_def)
  have a3: "cell st' (current_selections st') (lit ''Tech A'') (lit ''Criteria 1'') = Inr False"
    using c2 t0 cr by blast
  have e0: "evaluations st' = [e]" using ev by (simp add: init_state_eq)
  have f': "evaluator_name e = lit ''Alice''" "comments e = lit ''good fit''"
    "timestamp e = lit ''2026-01-05T03:00:59''"
    using f by (simp_all add: alice_inputs_def alice_name alice_comment example_timestamp)
  show ?thesis using run e0 f' a1 a2 a3 by blast
qed

section \<open>Sessions and stored records\<close>

lemma run_session_frame:
  assumes "wf_state st"
  shows "\<exists>st' new. run_session ws st = Inr st' \<and> wf_state st' \<and>
           evaluations st' = evaluations st @ new \<and>
           map (\<lambda>e. (evaluator_name e, timestamp e, comments e)) new =
             map (\<lambda>w. (strip (evaluator_input w), isoformat_seconds (clock w), strip (comments_area w)))
               (filter (\<lambda>w. submit_button w \<and> strip (evaluator_input w) \<noteq> []) ws) \<and>
           (\<forall>e \<in> set (evaluations st). \<forall>a \<in> snd ` set (selections e). heap st' a = heap st a)"
  using assms
proof (induction ws arbitrary: st)
  case Nil
  then show ?case by simp
next
  case (Cons w ws)
  let ?one = "if submit_button w \<and> strip (evaluator_input w) \<noteq> []
              then [\<lparr>evaluator_name = strip (evaluator_input w),
                     timestamp = isoformat_seconds (clock w),
                     selections = current_selections st,
                     comments = strip (comments_area w)\<rparr>]
              else []"
  from script_frame [OF Cons.prems, of w] obtain st1 fb res where
    run1: "script w st = Inr (st1, fb, res)" and wf1: "wf_state st1" and
    ev1: "evaluations st1 = evaluations st @ ?one" and
    hp1: "\<forall>e \<in> set (evaluations st). \<forall>a \<in> snd ` set (selections e). heap st1 a = heap st a"
    by blast
  from Cons.IH [OF wf1] obtain st' new where
    run: "run_session ws st1 = Inr st'" and wf': "wf_state st'" and
    ev: "evaluations st' = evaluations st1 @ new" and
    ord: "map (\<lambda>e. (evaluator_name e, timestamp e, comments e)) new =
             map (\<lambda>w. (strip (evaluator_input w), isoformat_seconds (clock w), strip (comments_area w)))
               (filter (\<lambda>w. submit_button w \<and> strip (evaluator_input w) \<noteq> []) ws)" and
    hp: "\<forall>e \<in> set (evaluations st1). \<forall>a \<in> snd ` set (selections e). heap st' a = heap st1 a"
    by blast
  have r: "run_session (w # ws) st = Inr st'" by (simp add: run1 run)
  have e: "evaluations st' = evaluations st @ (?one @ new)" using ev ev1 by simp
  have o: "map (\<lambda>e. (evaluator_name e, timestamp e, comments e)) (?one @ new) =
             map (\<lambda>w. (strip (evaluator_input w), isoformat_seconds (clock w), strip (comments_area w)))
               (filter (\<lambda>w. submit_button w \<and> strip (evaluator_input w) \<noteq> []) (w # ws))"
    using ord by simp
  have h: "\<forall>e \<in> set (evaluations st). \<forall>a \<in> snd ` set (selections e). heap st' a = heap st a"
  proof (intro ballI)
    fix e a assume e: "e \<in> set (evaluations st)" and a: "a \<in> snd ` set (selections e)"
    have "e \<in> set (evaluations st1)" using e ev1 by simp
    then have "heap st' a = heap st1 a" using hp a by blast
    moreover have "heap st1 a = heap st a" using hp1 e a by blast
    ultimately show "heap st' a = heap st a" by simp
  qed
  show ?case
    by (intro exI [of _ st'] exI [of _ "?one @ new"] conjI r wf' e o h)
qed

lemma alice_state_facts:
  "\<exists>fb res. script alice_inputs init_state = Inr (alice_state, fb, res)"
  "wf_state alice_state"
  "evaluations alice_state = [alice_record]"
  "i < length TECHNOLOGIES \<Longrightarrow> c \<in> set CRITERIA \<Longrightarrow>
     cell alice_state (selections alice_record) (TECHNOLOGIES ! i) c =
       Inr (i = 0 \<and> c = lit ''Criteria 1'')"
proof -
  have b: "submit_button alice_inputs" by (simp add: alice_inputs_def)
  have n: "strip (evaluator_input alice_inputs) \<noteq> []"
    by (simp add: alice_inputs_def alice_name) (simp add: lit_def)
  from script_submit_ok [OF wf_init b n] obtain st' res where
    run: "script alice_inputs init_state =
           Inr (st', SuccessMessage ([9989] @ lit '' Thank you, '' @ evaluator_input alice_inputs @
                                     lit ''! Your evaluation has been submitted.''), res)" and
    wf': "wf_state st'" and
    ev: "evaluations st' = evaluations init_state @
           [\<lparr>evaluator_name = strip (evaluator_input alice_inputs),
             timestamp = isoformat_seconds (clock alice_inputs),
             selections = current_selections init_state,
             comments = strip (comments_area alice_inputs)\<rparr>]" and
    c1: "\<forall>i c. i < length TECHNOLOGIES \<and> c \<in> set CRITERIA \<longrightarrow>
            cell st' (current_selections init_state) (TECHNOLOGIES ! i) c =
              Inr (evaluation_table alice_inputs i c)"
    by blast
  have eq: "alice_state = st'" by (simp add: alice_state_def run)
  show "\<exists>fb res. script alice_inputs init_state = Inr (alice_state, fb, res)"
    using run eq by blast
  show "wf_state alice_state" using wf' eq by simp
  have "evaluations init_state = []" by (simp add: init_state_eq)
  then show "evaluations alice_state = [alice_record]"
    using ev unfolding eq
    by (simp add: alice_record_def alice_inputs_def alice_name alice_comment example_timestamp)
  show "cell alice_state (selections alice_record) (TECHNOLOGIES ! i) c =
       Inr (i = 0 \<and> c = lit ''Criteria 1'')"
    if "i < length TECHNOLOGIES" "c \<in> set CRITERIA"
    using c1 that unfolding eq by (simp add: alice_record_def alice_inputs_def)
qed

lemma bob_name: "strip (lit ''Bob'') = lit ''Bob''"
  by (simp add: strip_def lit_def isspace_def)

lemma strip_empty: "strip [] = []"
  by (simp add: strip_def)

lemma bob_timestamp: "isoformat_seconds (example_clock\<lparr>minute := 7\<rparr>) = lit ''2026-01-05T03:07:59''"
  by code_simp

lemma tech_index:
  "TECHNOLOGIES ! 0 = lit ''Tech A''" "TECHNOLOGIES ! 1 = lit ''Tech B''"
  "TECHNOLOGIES ! 2 = lit ''Tech C''" "TECHNOLOGIES ! 3 = lit ''Tech D''"
  "TECHNOLOGIES ! 4 = lit ''Tech E''"
  by (simp_all add: TECHNOLOGIES_def)

lemma criteria_mem:
  "lit ''Criteria 1'' \<in> set CRITERIA" "lit ''Criteria 2'' \<in> set CRITERIA"
  "lit ''Criteria 3'' \<in> set CRITERIA" "lit ''Criteria 4'' \<in> set CRITERIA"
  "lit ''Criteria 5'' \<in> set CRITERIA"
  by (simp_all add: CRITERIA_def)

text \<open>
  C1. The selections of a stored record do not depend on the live grid. The record holds
  the row objects of the grid that was submitted (line 136 copies the outer dict only),
  and the same submit binds the live grid to newly created rows (lines 144-147), so from
  then on no row of a stored record is a row of the live grid. Hence, for every stored
  record and every sequence of later script runs, each of which writes an arbitrary edited
  frame into the live grid and may submit it, the record stays in the store and every cell
  of its selections reads as it did before.
\<close>

theorem C1_record_selections_isolated:
  assumes "wf_state st" and "e \<in> set (evaluations st)"
  shows "\<exists>st'. run_session ws st = Inr st' \<and> e \<in> set (evaluations st') \<and>
           (\<forall>tech criterion.
              cell st' (selections e) tech criterion = cell st (selections e) tech criterion) \<and>
           (\<forall>a. a \<in> snd ` set (selections e) \<longrightarrow>
              heap st' a = heap st a \<and> a \<notin> snd ` set (current_selections st'))"
proof -
  from run_session_frame [OF assms(1), of ws] obtain st' new where
    run: "run_session ws st = Inr st'" and wf': "wf_state st'" and
    ev: "evaluations st' = evaluations st @ new" and
    hp: "\<forall>e \<in> set (evaluations st). \<forall>a \<in> snd ` set (selections e). heap st' a = heap st a"
    by blast
  have mem: "e \<in> set (evaluations st')" using ev assms(2) by simp
  have same: "heap st' a = heap st a" if "a \<in> snd ` set (selections e)" for a
    using hp assms(2) that by blast
  have cells: "cell st' (selections e) tech criterion = cell st (selections e) tech criterion"
    for tech criterion
    by (rule cell_heap_cong) (rule same)
  have apart: "a \<notin> snd ` set (current_selections st')" if "a \<in> snd ` set (selections e)" for a
    using wf' mem that by (rule wf_stateD(4))
  show ?thesis using run mem cells same apart by blast
qed

theorem C1_record_selections_isolated_witness:
  "\<exists>st' e2. run_session [bob_inputs] alice_state = Inr st' \<and>
     evaluations st' = [alice_record, e2] \<and>
     cell st' (selections e2) (lit ''Tech B'') (lit ''Criteria 2'') = Inr True \<and>
     cell st' (selections alice_record) (lit ''Tech B'') (lit ''Criteria 2'') = Inr False \<and>
     cell st' (selections alice_record) (lit ''Tech A'') (lit ''Criteria 1'') = Inr True"
proof -
  have mem: "alice_record \<in> set (evaluations alice_state)" by (simp add: alice_state_facts(3))
  from C1_record_selections_isolated [OF alice_state_facts(2) mem, of "[bob_inputs]"]
  obtain st' where
    run: "run_session [bob_inputs] alice_state = Inr st'" and
    cells: "\<forall>tech criterion. cell st' (selections alice_record) tech criterion =
              cell alice_state (selections alice_record) tech criterion"
    by blast
  have b: "submit_button bob_inputs" by (simp add: bob_inputs_def)
  have n: "strip (evaluator_input bob_inputs) \<noteq> []"
    by (simp add: bob_inputs_def bob_name) (simp add: lit_def)
  from script_submit_ok [OF alice_state_facts(2) b n] obtain st2 fb res where
    run2: "script bob_inputs alice_state = Inr (st2, fb, res)" and
    ev2: "evaluations st2 = evaluations alice_state @
           [\<lparr>evaluator_name = strip (evaluator_input bob_inputs),
             timestamp = isoformat_seconds (clock bob_inputs),
             selections = current_selections alice_state,
             comments = strip (comments_area bob_inputs)\<rparr>]" and
    c2: "\<forall>i c. i < length TECHNOLOGIES \<and> c \<in> set CRITERIA \<longrightarrow>
            cell st2 (current_selections alice_state) (TECHNOLOGIES ! i) c =
              Inr (evaluation_table bob_inputs i c)"
    by blast
  have eq: "st' = st2" using run run2 by simp
  let ?e2 = "\<lparr>evaluator_name = strip (evaluator_input bob_inputs),
             timestamp = isoformat_seconds (clock bob_inputs),
             selections = current_selections alice_state,
             comments = strip (comments_area bob_inputs)\<rparr>"
  have e: "evaluations st' = [alice_record, ?e2]"
    using ev2 eq by (simp add: alice_state_facts(3))
  have l1: "1 < length TECHNOLOGIES" and l0: "0 < length TECHNOLOGIES"
    by (simp_all add: length_TECHNOLOGIES)
  have "cell st2 (current_selections alice_state) (TECHNOLOGIES ! 1) (lit ''Criteria 2'') =
          Inr (evaluation_table bob_inputs 1 (lit ''Criteria 2''))"
    using c2 l1 criteria_mem(2) by blast
  then have "cell st2 (current_selections alice_state) (lit ''Tech B'') (lit ''Criteria 2'') =
          Inr (evaluation_table bob_inputs 1 (lit ''Criteria 2''))"
    unfolding tech_index .
  then have b1: "cell st' (selections ?e2) (lit ''Tech B'') (lit ''Criteria 2'') = Inr True"
    using eq by (simp add: bob_inputs_def)
  have a1: "cell st' (selections alice_record) (lit ''Tech B'') (lit ''Criteria 2'') = Inr False"
    using cells alice_state_facts(4) [OF l1 criteria_mem(2), unfolded tech_index]
    by simp
  have a2: "cell st' (selections alice_record) (lit ''Tech A'') (lit ''Criteria 1'') = Inr True"
    using cells alice_state_facts(4) [OF l0 criteria_mem(1), unfolded tech_index]
    by simp
  show ?thesis using run e b1 a1 a2 by blast
qed

text \<open>
  C8. The store is append-only. Over every sequence of script runs the new store is the
  old store followed by the records created on the way, so its length never decreases and
  every old record stays at its position with the same fields and, read through the object
  store, the same selections. The new records are those of the runs whose submit passed
  validation, in the order of those runs.
\<close>

theorem C8_store_append_only:
  assumes "wf_state st"
  shows "\<exists>st' new. run_session ws st = Inr st' \<and>
           evaluations st' = evaluations st @ new \<and>
           length (evaluations st) \<le> length (evaluations st') \<and>
           (\<forall>i. i < length (evaluations st) \<longrightarrow> evaluations st' ! i = evaluations st ! i) \<and>
           (\<forall>e tech criterion. e \<in> set (evaluations st) \<longrightarrow>
              cell st' (selections e) tech criterion = cell st (selections e) tech criterion) \<and>
           map (\<lambda>e. (evaluator_name e, timestamp e, comments e)) new =
             map (\<lambda>w. (strip (evaluator_input w), isoformat_seconds (clock w), strip (comments_area w)))
               (filter (\<lambda>w. submit_button w \<and> strip (evaluator_input w) \<noteq> []) ws)"
proof -
  from run_session_frame [OF assms, of ws] obtain st' new where
    run: "run_session ws st = Inr st'" and
    ev: "evaluations st' = evaluations st @ new" and
    ord: "map (\<lambda>e. (evaluator_name e, timestamp e, comments e)) new =
             map (\<lambda>w. (strip (evaluator_input w), isoformat_seconds (clock w), strip (comments_area w)))
               (filter (\<lambda>w. submit_button w \<and> strip (evaluator_input w) \<noteq> []) ws)" and
    hp: "\<forall>e \<in> set (evaluations st). \<forall>a \<in> snd ` set (selections e). heap st' a = heap st a"
    by blast
  have len: "length (evaluations st) \<le> length (evaluations st')" using ev by simp
  have nth: "\<forall>i. i < length (evaluations st) \<longrightarrow> evaluations st' ! i = evaluations st ! i"
    using ev by (simp add: nth_append)
  have cells: "cell st' (selections e) tech criterion = cell st (selections e) tech criterion"
    if "e \<in> set (evaluations st)" for e tech criterion
    by (rule cell_heap_cong) (use hp that in blast)
  show ?thesis
    using run ev len nth cells ord by blast
qed

theorem C8_store_append_only_witness:
  "\<exists>st' new. run_session [blank_inputs, bob_inputs] alice_state = Inr st' \<and>
     evaluations st' = [alice_record] @ new \<and>
     map (\<lambda>e. (evaluator_name e, timestamp e, comments e)) new =
       [(lit ''Bob'', lit ''2026-01-05T03:07:59'', [])]"
proof -
  from C8_store_append_only [OF alice_state_facts(2), of "[blank_inputs, bob_inputs]"]
  obtain st' new where
    run: "run_session [blank_inputs, bob_inputs] alice_state = Inr st'" and
    ev: "evaluations st' = evaluations alice_state @ new" and
    ord: "map (\<lambda>e. (evaluator_name e, timestamp e, comments e)) new =
             map (\<lambda>w. (strip (evaluator_input w), isoformat_seconds (clock w), strip (comments_area w)))
               (filter (\<lambda>w. submit_button w \<and> strip (evaluator_input w) \<noteq> [])
                  [blank_inputs, bob_inputs])"
    by blast
  have k: "strip (evaluator_input blank_inputs) = []"
    by (simp add: blank_inputs_def strip_def lit_def isspace_def)
  have n: "strip (evaluator_input bob_inputs) = lit ''Bob''" "lit ''Bob'' \<noteq> []"
    "submit_button bob_inputs" "strip (comments_area bob_inputs) = []"
    "isoformat_seconds (clock bob_inputs) = lit ''2026-01-05T03:07:59''"
    by (simp_all add: bob_inputs_def bob_name strip_empty bob_timestamp) (simp add: lit_def)
  have "map (\<lambda>e. (evaluator_name e, timestamp e, comments e)) new =
       [(lit ''Bob'', lit ''2026-01-05T03:07:59'', [])]"
    using ord by (simp add: k n)
  then show ?thesis using run ev by (simp add: alice_state_facts(3))
qed

section \<open>Aggregation and exports\<close>

lemma bob_state_facts:
  "\<exists>fb res. script bob_inputs alice_state = Inr (bob_state, fb, res)"
  "wf_state bob_state"
  "evaluations bob_state = [alice_record, bob_record]"
  "i < length TECHNOLOGIES \<Longrightarrow> c \<in> set CRITERIA \<Longrightarrow>
     cell bob_state (selections bob_record) (TECHNOLOGIES ! i) c =
       Inr (i = 1 \<and> c = lit ''Criteria 2'')"
  "i < length TECHNOLOGIES \<Longrightarrow> c \<in> set CRITERIA \<Longrightarrow>
     cell bob_state (selections alice_record) (TECHNOLOGIES ! i) c =
       Inr (i = 0 \<and> c = lit ''Criteria 1'')"
proof -
  have b: "submit_button bob_inputs" by (simp add: bob_inputs_def)
  have n: "strip (evaluator_input bob_inputs) \<noteq> []"
    by (simp add: bob_inputs_def bob_name) (simp add: lit_def)
  from script_submit_ok [OF alice_state_facts(2) b n] obtain st' res where
    run: "script bob_inputs alice_state =
           Inr (st', SuccessMessage ([9989] @ lit '' Thank you, '' @ evaluator_input bob_inputs @
                                     lit ''! Your evaluation has been submitted.''), res)" and
    wf': "wf_state st'" and
    ev: "evaluations st' = evaluations alice_state @
           [\<lparr>evaluator_name = strip (evaluator_input bob_inputs),
             timestamp = isoformat_seconds (clock bob_inputs),
             selections = current_selections alice_state,
             comments = strip (comments_area bob_inputs)\<rparr>]" and
    c1: "\<forall>i c. i < length TECHNOLOGIES \<and> c \<in> set CRITERIA \<longrightarrow>
            cell st' (current_selections alice_state) (TECHNOLOGIES ! i) c =
              Inr (evaluation_table bob_inputs i c)"
    by blast
  have eq: "bob_state = st'" by (simp add: bob_state_def run)
  have rs: "run_session [bob_inputs] alice_state = Inr st'" by (simp add: run)
  show "\<exists>fb res. script bob_inputs alice_state = Inr (bob_state, fb, res)"
    using run eq by blast
  show "wf_state bob_state" using wf' eq by simp
  show "evaluations bob_state = [alice_record, bob_record]"
    using ev unfolding eq
    by (simp add: alice_state_facts(3) bob_record_def bob_inputs_def bob_name strip_empty bob_timestamp)
  show "cell bob_state (selections bob_record) (TECHNOLOGIES ! i) c =
       Inr (i = 1 \<and> c = lit ''Criteria 2'')"
    if "i < length TECHNOLOGIES" "c \<in> set CRITERIA"
    using c1 that unfolding eq by (simp add: bob_record_def bob_inputs_def)
  show "cell bob_state (selections alice_record) (TECHNOLOGIES ! i) c =
       Inr (i = 0 \<and> c = lit ''Criteria 1'')"
    if "i < length TECHNOLOGIES" "c \<in> set CRITERIA"
  proof -
    have mem: "alice_record \<in> set (evaluations alice_state)" by (simp add: alice_state_facts(3))
    from run_session_frame [OF alice_state_facts(2), of "[bob_inputs]"] obtain st2 where
      r2: "run_session [bob_inputs] alice_state = Inr st2" and
      hp: "\<forall>e \<in> set (evaluations alice_state). \<forall>a \<in> snd ` set (selections e).
             heap st2 a = heap alice_state a"
      by blast
    have "st2 = st'" using r2 rs by simp
    then have "cell st' (selections alice_record) (TECHNOLOGIES ! i) c =
          cell alice_state (selections alice_record) (TECHNOLOGIES ! i) c"
      using hp mem by (intro cell_heap_cong) blast
    then show ?thesis using alice_state_facts(4) [OF that] eq by simp
  qed
qed

lemma concat_nth_uniform:
  "(\<And>xs. xs \<in> set xss \<Longrightarrow> length xs = n) \<Longrightarrow> i < length xss \<Longrightarrow> j < n \<Longrightarrow>
   concat xss ! (i * n + j) = xss ! i ! j"
proof (induction xss arbitrary: i)
  case Nil
  then show ?case by simp
next
  case (Cons xs xss)
  have lx: "length xs = n" using Cons.prems(1) by simp
  show ?case
  proof (cases i)
    case 0
    then show ?thesis using Cons.prems(3) lx by (simp add: nth_append)
  next
    case (Suc k)
    have "concat xss ! (k * n + j) = xss ! k ! j"
      using Cons.IH [of k] Cons.prems Suc by simp
    moreover have "Suc k * n + j = length xs + (k * n + j)" using lx by simp
    ultimately show ?thesis using Suc by (simp only: concat.simps nth_append_length_plus nth_Cons_Suc)
  qed
qed

lemma length_concat_uniform:
  "(\<And>xs. xs \<in> set xss \<Longrightarrow> length xs = n) \<Longrightarrow> length (concat xss) = length xss * n"
  by (induction xss) simp_all

lemma criteria_index:
  "CRITERIA ! 0 = lit ''Criteria 1''" "CRITERIA ! 1 = lit ''Criteria 2''"
  "CRITERIA ! 2 = lit ''Criteria 3''" "CRITERIA ! 3 = lit ''Criteria 4''"
  "CRITERIA ! 4 = lit ''Criteria 5''"
  by (simp_all add: CRITERIA_def)

lemma tech_mem:
  "lit ''Tech A'' \<in> set TECHNOLOGIES" "lit ''Tech B'' \<in> set TECHNOLOGIES"
  "lit ''Tech C'' \<in> set TECHNOLOGIES" "lit ''Tech D'' \<in> set TECHNOLOGIES"
  "lit ''Tech E'' \<in> set TECHNOLOGIES"
  by (simp_all add: TECHNOLOGIES_def)

lemma getitem_map_keys:
  "k \<in> set ks \<Longrightarrow> getitem (map (\<lambda>k. (k, f k)) ks) k = Inr (f k)"
  by (simp add: getitem_eq_Inr map_of_map_restrict)

lemma run_session_submits:
  assumes "wf_state st" "\<And>w. w \<in> set ws \<Longrightarrow> submit_button w \<and> strip (evaluator_input w) \<noteq> []"
  shows "\<exists>st'. run_session ws st = Inr st' \<and> wf_state st' \<and>
           length (evaluations st') = length (evaluations st) + length ws \<and>
           (\<forall>k i c. k < length ws \<and> i < length TECHNOLOGIES \<and> c \<in> set CRITERIA \<longrightarrow>
              cell st' (selections (evaluations st' ! (length (evaluations st) + k))) (TECHNOLOGIES ! i) c =
                Inr (evaluation_table (ws ! k) i c))"
  using assms
proof (induction ws arbitrary: st)
  case Nil
  then show ?case by simp
next
  case (Cons w ws)
  let ?rec = "\<lparr>evaluator_name = strip (evaluator_input w), timestamp = isoformat_seconds (clock w),
               selections = current_selections st, comments = strip (comments_area w)\<rparr>"
  have b: "submit_button w" and n: "strip (evaluator_input w) \<noteq> []"
    using Cons.prems(2) [of w] by simp_all
  from script_submit_ok [OF Cons.prems(1) b n] obtain st1 res where
    run1: "script w st =
             Inr (st1, SuccessMessage ([9989] @ lit '' Thank you, '' @ evaluator_input w @
                                       lit ''! Your evaluation has been submitted.''), res)" and
    wf1: "wf_state st1" and
    ev1: "evaluations st1 = evaluations st @ [?rec]" and
    c1: "\<forall>i c. i < length TECHNOLOGIES \<and> c \<in> set CRITERIA \<longrightarrow>
            cell st1 (current_selections st) (TECHNOLOGIES ! i) c = Inr (evaluation_table w i c)"
    by blast
  have rest: "\<And>w'. w' \<in> set ws \<Longrightarrow> submit_button w' \<and> strip (evaluator_input w') \<noteq> []"
    using Cons.prems(2) by simp
  from Cons.IH [OF wf1 rest] obtain st' where
    run: "run_session ws st1 = Inr st'" and wf': "wf_state st'" and
    len: "length (evaluations st') = length (evaluations st1) + length ws" and
    cs: "\<forall>k i c. k < length ws \<and> i < length TECHNOLOGIES \<and> c \<in> set CRITERIA \<longrightarrow>
            cell st' (selections (evaluations st' ! (length (evaluations st1) + k))) (TECHNOLOGIES ! i) c =
              Inr (evaluation_table (ws ! k) i c)"
    by blast
  from run_session_frame [OF wf1, of ws] obtain st2 new where
    run2: "run_session ws st1 = Inr st2" and
    ev2: "evaluations st2 = evaluations st1 @ new" and
    hp: "\<forall>e \<in> set (evaluations st1). \<forall>a \<in> snd ` set (selections e). heap st2 a = heap st1 a"
    by blast
  have same: "st2 = st'" using run run2 by simp
  have r: "run_session (w # ws) st = Inr st'" by (simp add: run1 run)
  have l: "length (evaluations st') = length (evaluations st) + length (w # ws)"
    using len ev1 by simp
  have first: "evaluations st' ! length (evaluations st) = ?rec"
    using ev2 ev1 unfolding same by (simp add: nth_append)
  have mem: "?rec \<in> set (evaluations st1)" using ev1 by simp
  have keep: "cell st' (current_selections st) t c = cell st1 (current_selections st) t c" for t c
  proof (rule cell_heap_cong)
    fix a assume "a \<in> snd ` set (current_selections st)"
    then have "a \<in> snd ` set (selections ?rec)" by simp
    then show "heap st' a = heap st1 a" using hp mem unfolding same by blast
  qed
  have cells: "cell st' (selections (evaluations st' ! (length (evaluations st) + k))) (TECHNOLOGIES ! i) c =
                Inr (evaluation_table ((w # ws) ! k) i c)"
    if "k < length (w # ws) \<and> i < length TECHNOLOGIES \<and> c \<in> set CRITERIA" for k i c
  proof (cases k)
    case 0
    have "cell st' (selections ?rec) (TECHNOLOGIES ! i) c = Inr (evaluation_table w i c)"
      using keep [of "TECHNOLOGIES ! i" c] c1 that by simp
    then show ?thesis unfolding 0 using first by simp
  next
    case (Suc k')
    have ix: "length (evaluations st) + k = length (evaluations st1) + k'"
      using Suc ev1 by simp
    have "k' < length ws \<and> i < length TECHNOLOGIES \<and> c \<in> set CRITERIA" using that Suc by simp
    then have "cell st' (selections (evaluations st' ! (length (evaluations st1) + k'))) (TECHNOLOGIES ! i) c =
          Inr (evaluation_table (ws ! k') i c)"
      using cs by blast
    then show ?thesis unfolding ix using Suc by simp
  qed
  have all: "\<forall>k i c. k < length (w # ws) \<and> i < length TECHNOLOGIES \<and> c \<in> set CRITERIA \<longrightarrow>
              cell st' (selections (evaluations st' ! (length (evaluations st) + k))) (TECHNOLOGIES ! i) c =
                Inr (evaluation_table ((w # ws) ! k) i c)"
    using cells by blast
  show ?case by (intro exI [of _ st'] conjI r wf' l all)
qed

lemma poll_names: "strip (lit ''Carol'') = lit ''Carol''" "strip (lit ''Dave'') = lit ''Dave''"
  by (simp_all add: strip_def lit_def isspace_def)

lemma poll_inputs_nth:
  "k < 20 \<Longrightarrow> poll_inputs ! k = (if k < 11 then yes_inputs else no_inputs)"
  by (simp add: poll_inputs_def nth_append)

lemma poll_state_facts:
  "run_session poll_inputs init_state = Inr poll_state"
  "wf_state poll_state"
  "length (evaluations poll_state) = 20"
  "k < 20 \<Longrightarrow> i < length TECHNOLOGIES \<Longrightarrow> c \<in> set CRITERIA \<Longrightarrow>
     cell poll_state (selections (evaluations poll_state ! k)) (TECHNOLOGIES ! i) c =
       Inr (k < 11 \<and> (i = 0 \<or> i = 2 \<or> i = 4) \<and> c = lit ''Criteria 1'')"
proof -
  have ok: "submit_button w \<and> strip (evaluator_input w) \<noteq> []" if "w \<in> set poll_inputs" for w
  proof -
    from that have "w = yes_inputs \<or> w = no_inputs" by (auto simp: poll_inputs_def)
    then show ?thesis
      by (auto simp: yes_inputs_def no_inputs_def poll_names) (simp_all add: lit_def)
  qed
  from run_session_submits [OF wf_init ok] obtain st' where
    run: "run_session poll_inputs init_state = Inr st'" and wf': "wf_state st'" and
    len: "length (evaluations st') = length (evaluations init_state) + length poll_inputs" and
    cs: "\<forall>k i c. k < length poll_inputs \<and> i < length TECHNOLOGIES \<and> c \<in> set CRITERIA \<longrightarrow>
            cell st' (selections (evaluations st' ! (length (evaluations init_state) + k)))
              (TECHNOLOGIES ! i) c = Inr (evaluation_table (poll_inputs ! k) i c)"
    by blast
  have eq: "poll_state = st'" by (simp add: poll_state_def run)
  have e0: "evaluations init_state = []" by (simp add: init_state_eq)
  have lp: "length poll_inputs = 20" by (simp add: poll_inputs_def)
  show "run_session poll_inputs init_state = Inr poll_state" using run eq by simp
  show "wf_state poll_state" using wf' eq by simp
  show "length (evaluations poll_state) = 20" using len unfolding eq e0 lp by simp
  show "cell poll_state (selections (evaluations poll_state ! k)) (TECHNOLOGIES ! i) c =
       Inr (k < 11 \<and> (i = 0 \<or> i = 2 \<or> i = 4) \<and> c = lit ''Criteria 1'')"
    if "k < 20" "i < length TECHNOLOGIES" "c \<in> set CRITERIA"
  proof -
    have "cell st' (selections (evaluations st' ! (length (evaluations init_state) + k)))
              (TECHNOLOGIES ! i) c = Inr (evaluation_table (poll_inputs ! k) i c)"
      using cs that lp by simp
    then have "cell poll_state (selections (evaluations poll_state ! k)) (TECHNOLOGIES ! i) c =
          Inr (evaluation_table (poll_inputs ! k) i c)"
      unfolding eq e0 by simp
    then show ?thesis
      unfolding poll_inputs_nth [OF that(1)] by (simp add: yes_inputs_def no_inputs_def)
  qed
qed

lemma length_filter_below: "length (filter (\<lambda>k. k < m \<and> b) [0 ..< n]) = (if b then min m n else 0)"
  by (induction n) auto

lemma poll_count:
  assumes "i < length TECHNOLOGIES" "c \<in> set CRITERIA"
  shows "length (filter (\<lambda>e. selected poll_state e (TECHNOLOGIES ! i) c) (evaluations poll_state)) =
         (if (i = 0 \<or> i = 2 \<or> i = 4) \<and> c = lit ''Criteria 1'' then 11 else 0)"
proof -
  let ?es = "evaluations poll_state"
  let ?b = "(i = 0 \<or> i = 2 \<or> i = 4) \<and> c = lit ''Criteria 1''"
  have es: "?es = map (\<lambda>k. ?es ! k) [0 ..< 20]"
    using map_nth [of ?es] by (simp only: poll_state_facts(3))
  have "length (filter (\<lambda>e. selected poll_state e (TECHNOLOGIES ! i) c) ?es) =
        length (filter (\<lambda>e. selected poll_state e (TECHNOLOGIES ! i) c) (map (\<lambda>k. ?es ! k) [0 ..< 20]))"
    using es by simp
  also have "\<dots> = length (filter (\<lambda>k. selected poll_state (?es ! k) (TECHNOLOGIES ! i) c) [0 ..< 20])"
    by (simp add: filter_map comp_def)
  also have "filter (\<lambda>k. selected poll_state (?es ! k) (TECHNOLOGIES ! i) c) [0 ..< 20] =
             filter (\<lambda>k. k < 11 \<and> ?b) [0 ..< 20]"
  proof (rule filter_cong [OF refl])
    fix k assume "k \<in> set [0 ..< 20]"
    then have k: "k < 20" by simp
    show "selected poll_state (?es ! k) (TECHNOLOGIES ! i) c \<longleftrightarrow> k < 11 \<and> ?b"
      unfolding selected_def poll_state_facts(4) [OF k assms] by simp
  qed
  also have "length (filter (\<lambda>k. k < 11 \<and> ?b) [0 ..< 20]) = (if ?b then 11 else 0)"
    by (simp only: length_filter_below min.absorb1 [of 11 20, simplified])
  finally show ?thesis .
qed

lemma poll_percentage:
  assumes "i < length TECHNOLOGIES" "c \<in> set CRITERIA"
  shows "float_percentage poll_state (TECHNOLOGIES ! i) c =
         (if (i = 0 \<or> i = 2 \<or> i = 4) \<and> c = lit ''Criteria 1'' then 55 + 1 / 2 ^ 47 else 0)"
  unfolding float_percentage_def poll_count [OF assms] poll_state_facts(3)
  using float_mul_examples(4,5) by simp

text \<open>
  C5. On a non-empty store of \<open>N\<close> records the aggregator returns a mapping with exactly the
  technologies as keys; the value of a technology is a sequence with one entry per
  criterion, in the order of \<open>CRITERIA\<close>. With \<open>K\<close> the number of records that selected
  the pair, the entry for a criterion is the double that line 172 computes, the rounded
  quotient \<open>K / N\<close> times 100, rounded; it differs from \<open>100 * K / N\<close> by at most
  \<open>2^-45\<close> and lies between 0 and 100.
\<close>

theorem C5_aggregator_percentages_rounded:
  assumes "wf_state st" and "evaluations st \<noteq> []"
  shows "\<exists>ts. tech_scores st = Inr ts \<and> map fst ts = TECHNOLOGIES \<and>
           (\<forall>tech. tech \<in> set TECHNOLOGIES \<longrightarrow>
              (\<exists>ps. getitem ts tech = Inr ps \<and> length ps = length CRITERIA \<and>
                 (\<forall>j. j < length CRITERIA \<longrightarrow>
                    ps ! j =
                      round_double
                        (round_double
                           (real (length (filter (\<lambda>e. selected st e tech (CRITERIA ! j)) (evaluations st))) /
                            real (length (evaluations st))) * 100) \<and>
                    \<bar>ps ! j -
                       100 * real (length (filter (\<lambda>e. selected st e tech (CRITERIA ! j)) (evaluations st))) /
                         real (length (evaluations st))\<bar> \<le> 1 / 2 ^ 45 \<and>
                    0 \<le> ps ! j \<and> ps ! j \<le> 100)))"
proof -
  let ?ts = "map (\<lambda>t. (t, map (float_percentage st t) CRITERIA)) TECHNOLOGIES"
  have run: "tech_scores st = Inr ?ts" using assms by (rule tech_scores_wf)
  have keys: "map fst ?ts = TECHNOLOGIES" by (simp add: comp_def)
  have row: "\<exists>ps. getitem ?ts tech = Inr ps \<and> length ps = length CRITERIA \<and>
                 (\<forall>j. j < length CRITERIA \<longrightarrow>
                    ps ! j =
                      round_double
                        (round_double
                           (real (length (filter (\<lambda>e. selected st e tech (CRITERIA ! j)) (evaluations st))) /
                            real (length (evaluations st))) * 100) \<and>
                    \<bar>ps ! j -
                       100 * real (length (filter (\<lambda>e. selected st e tech (CRITERIA ! j)) (evaluations st))) /
                         real (length (evaluations st))\<bar> \<le> 1 / 2 ^ 45 \<and>
                    0 \<le> ps ! j \<and> ps ! j \<le> 100)"
    if "tech \<in> set TECHNOLOGIES" for tech
  proof -
    let ?ps = "map (float_percentage st tech) CRITERIA"
    have g: "getitem ?ts tech = Inr ?ps" using that by (rule getitem_map_keys)
    have v: "?ps ! j =
                round_double
                  (round_double
                     (real (length (filter (\<lambda>e. selected st e tech (CRITERIA ! j)) (evaluations st))) /
                      real (length (evaluations st))) * 100) \<and>
             \<bar>?ps ! j -
                100 * real (length (filter (\<lambda>e. selected st e tech (CRITERIA ! j)) (evaluations st))) /
                  real (length (evaluations st))\<bar> \<le> 1 / 2 ^ 45 \<and>
             0 \<le> ?ps ! j \<and> ?ps ! j \<le> 100"
      if "j < length CRITERIA" for j
    proof -
      have n: "?ps ! j = float_percentage st tech (CRITERIA ! j)" using that by simp
      have d: "float_percentage st tech (CRITERIA ! j) =
                round_double
                  (round_double
                     (real (length (filter (\<lambda>e. selected st e tech (CRITERIA ! j)) (evaluations st))) /
                      real (length (evaluations st))) * 100)"
        by (simp only: float_percentage_def float_mul_def)
      from float_percentage_bounds [OF assms(2), of tech "CRITERIA ! j"]
      have b: "0 \<le> float_percentage st tech (CRITERIA ! j)"
        "float_percentage st tech (CRITERIA ! j) \<le> 100"
        "\<bar>float_percentage st tech (CRITERIA ! j) -
           100 * real (length (filter (\<lambda>e. selected st e tech (CRITERIA ! j)) (evaluations st))) /
             real (length (evaluations st))\<bar> \<le> 1 / 2 ^ 45"
        by (simp_all only: spec_percentage_def)
      show ?thesis unfolding n by (intro conjI d b)
    qed
    have all: "\<forall>j. j < length CRITERIA \<longrightarrow>
                    ?ps ! j =
                      round_double
                        (round_double
                           (real (length (filter (\<lambda>e. selected st e tech (CRITERIA ! j)) (evaluations st))) /
                            real (length (evaluations st))) * 100) \<and>
                    \<bar>?ps ! j -
                       100 * real (length (filter (\<lambda>e. selected st e tech (CRITERIA ! j)) (evaluations st))) /
                         real (length (evaluations st))\<bar> \<le> 1 / 2 ^ 45 \<and>
                    0 \<le> ?ps ! j \<and> ?ps ! j \<le> 100"
      using v by blast
    show ?thesis by (rule exI [of _ ?ps]) (intro conjI g all, simp)
  qed
  show ?thesis using run keys row by (intro exI [of _ ?ts]) blast
qed

theorem C5_aggregator_percentages_rounded_witness:
  "\<exists>ts ps qs. tech_scores bob_state = Inr ts \<and> map fst ts = TECHNOLOGIES \<and>
     getitem ts (lit ''Tech A'') = Inr ps \<and> length ps = 5 \<and> ps ! 0 = 50 \<and> ps ! 1 = 0 \<and>
     getitem ts (lit ''Tech B'') = Inr qs \<and> length qs = 5 \<and> qs ! 0 = 0 \<and> qs ! 1 = 50"
proof -
  have ne: "evaluations bob_state \<noteq> []" by (simp add: bob_state_facts(3))
  from C5_aggregator_percentages_rounded [OF bob_state_facts(2) ne] obtain ts where
    run: "tech_scores bob_state = Inr ts" and keys: "map fst ts = TECHNOLOGIES" and
    rows: "\<forall>tech. tech \<in> set TECHNOLOGIES \<longrightarrow>
              (\<exists>ps. getitem ts tech = Inr ps \<and> length ps = length CRITERIA \<and>
                 (\<forall>j. j < length CRITERIA \<longrightarrow>
                    ps ! j =
                      round_double
                        (round_double
                           (real (length (filter (\<lambda>e. selected bob_state e tech (CRITERIA ! j))
                                            (evaluations bob_state))) /
                            real (length (evaluations bob_state))) * 100)))"
    by blast
  have l: "0 < length TECHNOLOGIES" "1 < length TECHNOLOGIES" "0 < length CRITERIA" "1 < length CRITERIA"
    by (simp_all add: length_TECHNOLOGIES length_CRITERIA)
  have a00: "selected bob_state alice_record (lit ''Tech A'') (CRITERIA ! 0)"
    unfolding criteria_index selected_def
    using bob_state_facts(5) [OF l(1) criteria_mem(1), unfolded tech_index] by simp
  have a01: "\<not> selected bob_state alice_record (lit ''Tech A'') (CRITERIA ! 1)"
    unfolding criteria_index selected_def
    using bob_state_facts(5) [OF l(1) criteria_mem(2), unfolded tech_index] by (simp add: lit_def)
  have a10: "\<not> selected bob_state alice_record (lit ''Tech B'') (CRITERIA ! 0)"
    unfolding criteria_index selected_def
    using bob_state_facts(5) [OF l(2) criteria_mem(1), unfolded tech_index] by simp
  have a11: "\<not> selected bob_state alice_record (lit ''Tech B'') (CRITERIA ! 1)"
    unfolding criteria_index selected_def
    using bob_state_facts(5) [OF l(2) criteria_mem(2), unfolded tech_index] by simp
  have b00: "\<not> selected bob_state bob_record (lit ''Tech A'') (CRITERIA ! 0)"
    unfolding criteria_index selected_def
    using bob_state_facts(4) [OF l(1) criteria_mem(1), unfolded tech_index] by simp
  have b01: "\<not> selected bob_state bob_record (lit ''Tech A'') (CRITERIA ! 1)"
    unfolding criteria_index selected_def
    using bob_state_facts(4) [OF l(1) criteria_mem(2), unfolded tech_index] by simp
  have b10: "\<not> selected bob_state bob_record (lit ''Tech B'') (CRITERIA ! 0)"
    unfolding criteria_index selected_def
    using bob_state_facts(4) [OF l(2) criteria_mem(1), unfolded tech_index] by (simp add: lit_def)
  have b11: "selected bob_state bob_record (lit ''Tech B'') (CRITERIA ! 1)"
    unfolding criteria_index selected_def
    using bob_state_facts(4) [OF l(2) criteria_mem(2), unfolded tech_index] by simp
  have half: "round_double (round_double (1 / 2) * 100) = 50"
    and none: "round_double (round_double (0 / 2) * 100) = 0"
    using float_mul_examples(3) round_double_exact(1) by (simp_all add: float_mul_def)
  from rows tech_mem(1) obtain ps where
    ps: "getitem ts (lit ''Tech A'') = Inr ps" and pl: "length ps = length CRITERIA" and
    pv: "\<forall>j. j < length CRITERIA \<longrightarrow>
            ps ! j =
              round_double
                (round_double
                   (real (length (filter (\<lambda>e. selected bob_state e (lit ''Tech A'') (CRITERIA ! j))
                                    (evaluations bob_state))) /
                    real (length (evaluations bob_state))) * 100)"
    by blast
  from rows tech_mem(2) obtain qs where
    qs: "getitem ts (lit ''Tech B'') = Inr qs" and ql: "length qs = length CRITERIA" and
    qv: "\<forall>j. j < length CRITERIA \<longrightarrow>
            qs ! j =
              round_double
                (round_double
                   (real (length (filter (\<lambda>e. selected bob_state e (lit ''Tech B'') (CRITERIA ! j))
                                    (evaluations bob_state))) /
                    real (length (evaluations bob_state))) * 100)"
    by blast
  have p0: "ps ! 0 = 50" using pv l(3) a00 b00 half by (simp add: bob_state_facts(3))
  have p1: "ps ! 1 = 0" using pv l(4) a01 b01 none by (simp add: bob_state_facts(3))
  have q0: "qs ! 0 = 0" using qv l(3) a10 b10 none by (simp add: bob_state_facts(3))
  have q1: "qs ! 1 = 50" using qv l(4) a11 b11 half by (simp add: bob_state_facts(3))
  have len: "length ps = 5" "length qs = 5" using pl ql by (simp_all add: length_CRITERIA)
  show ?thesis using run keys ps len p0 p1 qs q0 q1 by blast
qed

text \<open>
  The entry is not always \<open>100 * K / N\<close>. After the poll of twenty submissions, eleven
  of which selected (Tech A, Criteria 1), the exact percentage is 55, a double; the
  quotient \<open>11 / 20\<close> is not a double, and the two roundings of line 172 end one unit in
  the last place above 55, at \<open>55 + 2^-47\<close>, which Python prints as 55.00000000000001.
\<close>

theorem C5_percentage_not_exact:
  "run_session poll_inputs init_state = Inr poll_state \<and>
   length (evaluations poll_state) = 20 \<and>
   count_selected poll_state (lit ''Tech A'') (lit ''Criteria 1'') = Inr 11 \<and>
   tech_scores poll_state =
     Inr [(lit ''Tech A'', [55 + 1 / 2 ^ 47, 0, 0, 0, 0]),
          (lit ''Tech B'', [0, 0, 0, 0, 0]),
          (lit ''Tech C'', [55 + 1 / 2 ^ 47, 0, 0, 0, 0]),
          (lit ''Tech D'', [0, 0, 0, 0, 0]),
          (lit ''Tech E'', [55 + 1 / 2 ^ 47, 0, 0, 0, 0])] \<and>
   (55 + 1 / 2 ^ 47 :: real) \<noteq> 100 * 11 / 20"
proof -
  have l: "0 < length TECHNOLOGIES" "1 < length TECHNOLOGIES" "2 < length TECHNOLOGIES"
    "3 < length TECHNOLOGIES" "4 < length TECHNOLOGIES"
    by (simp_all add: length_TECHNOLOGIES)
  have ne: "evaluations poll_state \<noteq> []" using poll_state_facts(3) by auto
  have cnt: "count_selected poll_state (lit ''Tech A'') (lit ''Criteria 1'') = Inr 11"
    unfolding count_selected_wf [OF poll_state_facts(2) tech_mem(1) criteria_mem(1)]
    using poll_count [OF l(1) criteria_mem(1), unfolded tech_index] by simp
  have row: "map (float_percentage poll_state (TECHNOLOGIES ! i)) CRITERIA =
             (if i = 0 \<or> i = 2 \<or> i = 4 then [55 + 1 / 2 ^ 47, 0, 0, 0, 0] else [0, 0, 0, 0, 0])"
    if "i < length TECHNOLOGIES" for i
  proof -
    have "map (float_percentage poll_state (TECHNOLOGIES ! i)) CRITERIA =
          map (\<lambda>c. if (i = 0 \<or> i = 2 \<or> i = 4) \<and> c = lit ''Criteria 1'' then 55 + 1 / 2 ^ 47 else 0)
            CRITERIA"
      by (rule map_cong [OF refl]) (rule poll_percentage [OF that])
    also have "\<dots> = (if i = 0 \<or> i = 2 \<or> i = 4 then [55 + 1 / 2 ^ 47, 0, 0, 0, 0] else [0, 0, 0, 0, 0])"
      by (simp add: CRITERIA_def lit_def)
    finally show ?thesis .
  qed
  have r:
    "map (float_percentage poll_state (lit ''Tech A'')) CRITERIA = [55 + 1 / 2 ^ 47, 0, 0, 0, 0]"
    "map (float_percentage poll_state (lit ''Tech B'')) CRITERIA = [0, 0, 0, 0, 0]"
    "map (float_percentage poll_state (lit ''Tech C'')) CRITERIA = [55 + 1 / 2 ^ 47, 0, 0, 0, 0]"
    "map (float_percentage poll_state (lit ''Tech D'')) CRITERIA = [0, 0, 0, 0, 0]"
    "map (float_percentage poll_state (lit ''Tech E'')) CRITERIA = [55 + 1 / 2 ^ 47, 0, 0, 0, 0]"
    using row [OF l(1), unfolded tech_index] row [OF l(2), unfolded tech_index]
      row [OF l(3), unfolded tech_index] row [OF l(4), unfolded tech_index]
      row [OF l(5), unfolded tech_index]
    by simp_all
  have ts: "tech_scores poll_state =
     Inr [(lit ''Tech A'', [55 + 1 / 2 ^ 47, 0, 0, 0, 0]),
          (lit ''Tech B'', [0, 0, 0, 0, 0]),
          (lit ''Tech C'', [55 + 1 / 2 ^ 47, 0, 0, 0, 0]),
          (lit ''Tech D'', [0, 0, 0, 0, 0]),
          (lit ''Tech E'', [55 + 1 / 2 ^ 47, 0, 0, 0, 0])]"
    unfolding tech_scores_wf [OF poll_state_facts(2) ne] by (simp add: TECHNOLOGIES_def r)
  have off: "(55 + 1 / 2 ^ 47 :: real) \<noteq> 100 * 11 / 20" by simp
  show ?thesis by (intro conjI poll_state_facts(1,3) cnt ts off)
qed

lemma csv_rows_nth:
  assumes "i < length es" "j < length TECHNOLOGIES"
  shows "concat (map (\<lambda>e. map (spec_csv_row st e) TECHNOLOGIES) es) ! (i * length TECHNOLOGIES + j) =
         spec_csv_row st (es ! i) (TECHNOLOGIES ! j)"
proof -
  let ?xss = "map (\<lambda>e. map (spec_csv_row st e) TECHNOLOGIES) es"
  have u: "\<And>xs. xs \<in> set ?xss \<Longrightarrow> length xs = length TECHNOLOGIES" by auto
  have "concat ?xss ! (i * length TECHNOLOGIES + j) = ?xss ! i ! j"
    using assms by (intro concat_nth_uniform [OF u]) simp_all
  then show ?thesis using assms by simp
qed

lemma csv_rows_length:
  "length (concat (map (\<lambda>e. map (spec_csv_row st e) TECHNOLOGIES) es)) = length es * length TECHNOLOGIES"
  by (rule trans [OF length_concat_uniform [where n = "length TECHNOLOGIES"]]) auto

lemma spec_csv_row_cells:
  "map fst (spec_csv_row st e tech) =
     [lit ''Evaluator'', lit ''Timestamp'', lit ''Technology'', lit ''Comments''] @ CRITERIA"
  "getitem (spec_csv_row st e tech) (lit ''Evaluator'') = Inr (evaluator_name e)"
  "getitem (spec_csv_row st e tech) (lit ''Timestamp'') = Inr (timestamp e)"
  "getitem (spec_csv_row st e tech) (lit ''Technology'') = Inr tech"
  "getitem (spec_csv_row st e tech) (lit ''Comments'') = Inr (comments e)"
  by (simp_all add: spec_csv_row_def comp_def getitem_eq_Inr lit_def)

lemma spec_csv_row_criterion:
  assumes "c \<in> set CRITERIA"
  shows "getitem (spec_csv_row st e tech) c = Inr (if selected st e tech c then check_mark else [])"
proof -
  have "c \<notin> {lit ''Evaluator'', lit ''Timestamp'', lit ''Technology'', lit ''Comments''}"
    using assms by (auto simp: CRITERIA_def lit_def)
  then have "map_of (spec_csv_row st e tech) c =
        map_of (map (\<lambda>criterion. (criterion, if selected st e tech criterion then check_mark else [])) CRITERIA) c"
    by (simp add: spec_csv_row_def)
  then show ?thesis using assms by (simp add: getitem_eq_Inr map_of_map_restrict)
qed

text \<open>
  C6. The detailed export has one row per (evaluation, technology) pair, in the order of
  the store and, within an evaluation, of \<open>TECHNOLOGIES\<close>: as many rows as evaluations
  times technologies. The columns of a row are Evaluator, Timestamp, Technology, Comments
  and then the criteria; the cell of a criterion is the check mark, the one-character
  string U+2713 (code point 10003), when the record selected the pair and the empty
  string otherwise.
\<close>

theorem C6_detailed_export_rows:
  assumes "wf_state st"
  shows "\<exists>rows. csv_rows st = Inr rows \<and>
           length rows = length (evaluations st) * length TECHNOLOGIES \<and>
           (\<forall>i j. i < length (evaluations st) \<and> j < length TECHNOLOGIES \<longrightarrow>
              (\<exists>r. rows ! (i * length TECHNOLOGIES + j) = r \<and>
                 map fst r =
                   [lit ''Evaluator'', lit ''Timestamp'', lit ''Technology'', lit ''Comments''] @ CRITERIA \<and>
                 getitem r (lit ''Evaluator'') = Inr (evaluator_name (evaluations st ! i)) \<and>
                 getitem r (lit ''Timestamp'') = Inr (timestamp (evaluations st ! i)) \<and>
                 getitem r (lit ''Technology'') = Inr (TECHNOLOGIES ! j) \<and>
                 getitem r (lit ''Comments'') = Inr (comments (evaluations st ! i)) \<and>
                 (\<forall>c. c \<in> set CRITERIA \<longrightarrow>
                    getitem r c =
                      Inr (if selected st (evaluations st ! i) (TECHNOLOGIES ! j) c
                           then [10003] else []))))"
proof -
  let ?rows = "concat (map (\<lambda>e. map (spec_csv_row st e) TECHNOLOGIES) (evaluations st))"
  have run: "csv_rows st = Inr ?rows" using assms by (rule csv_rows_wf)
  have len: "length ?rows = length (evaluations st) * length TECHNOLOGIES"
    by (rule csv_rows_length)
  have row: "\<exists>r. ?rows ! (i * length TECHNOLOGIES + j) = r \<and>
                 map fst r =
                   [lit ''Evaluator'', lit ''Timestamp'', lit ''Technology'', lit ''Comments''] @ CRITERIA \<and>
                 getitem r (lit ''Evaluator'') = Inr (evaluator_name (evaluations st ! i)) \<and>
                 getitem r (lit ''Timestamp'') = Inr (timestamp (evaluations st ! i)) \<and>
                 getitem r (lit ''Technology'') = Inr (TECHNOLOGIES ! j) \<and>
                 getitem r (lit ''Comments'') = Inr (comments (evaluations st ! i)) \<and>
                 (\<forall>c. c \<in> set CRITERIA \<longrightarrow>
                    getitem r c =
                      Inr (if selected st (evaluations st ! i) (TECHNOLOGIES ! j) c
                           then [10003] else []))"
    if "i < length (evaluations st) \<and> j < length TECHNOLOGIES" for i j
  proof -
    have n: "?rows ! (i * length TECHNOLOGIES + j) =
             spec_csv_row st (evaluations st ! i) (TECHNOLOGIES ! j)"
      using that by (intro csv_rows_nth) simp_all
    show ?thesis
      by (rule exI [of _ "spec_csv_row st (evaluations st ! i) (TECHNOLOGIES ! j)"])
        (intro conjI allI impI n spec_csv_row_cells spec_csv_row_criterion [unfolded check_mark_def])
  qed
  have "\<forall>i j. i < length (evaluations st) \<and> j < length TECHNOLOGIES \<longrightarrow>
              (\<exists>r. ?rows ! (i * length TECHNOLOGIES + j) = r \<and>
                 map fst r =
                   [lit ''Evaluator'', lit ''Timestamp'', lit ''Technology'', lit ''Comments''] @ CRITERIA \<and>
                 getitem r (lit ''Evaluator'') = Inr (evaluator_name (evaluations st ! i)) \<and>
                 getitem r (lit ''Timestamp'') = Inr (timestamp (evaluations st ! i)) \<and>
                 getitem r (lit ''Technology'') = Inr (TECHNOLOGIES ! j) \<and>
                 getitem r (lit ''Comments'') = Inr (comments (evaluations st ! i)) \<and>
                 (\<forall>c. c \<in> set CRITERIA \<longrightarrow>
                    getitem r c =
                      Inr (if selected st (evaluations st ! i) (TECHNOLOGIES ! j) c
                           then [10003] else [])))"
    using row by (intro allI impI)
  then show ?thesis
    using run len by (intro exI [of _ ?rows] conjI)
qed

theorem C6_detailed_export_rows_witness:
  "\<exists>rows. csv_rows bob_state = Inr rows \<and> length rows = 10 \<and>
     getitem (rows ! 6) (lit ''Evaluator'') = Inr (lit ''Bob'') \<and>
     getitem (rows ! 6) (lit ''Technology'') = Inr (lit ''Tech B'') \<and>
     getitem (rows ! 6) (lit ''Comments'') = Inr [] \<and>
     getitem (rows ! 6) (lit ''Criteria 2'') = Inr [10003] \<and>
     getitem (rows ! 6) (lit ''Criteria 1'') = Inr []"
proof -
  let ?n = "length TECHNOLOGIES"
  from C6_detailed_export_rows [OF bob_state_facts(2)] obtain rows where
    run: "csv_rows bob_state = Inr rows" and
    len: "length rows = length (evaluations bob_state) * ?n" and
    all: "\<forall>i j. i < length (evaluations bob_state) \<and> j < ?n \<longrightarrow>
              (\<exists>r. rows ! (i * ?n + j) = r \<and>
                 map fst r =
                   [lit ''Evaluator'', lit ''Timestamp'', lit ''Technology'', lit ''Comments''] @ CRITERIA \<and>
                 getitem r (lit ''Evaluator'') = Inr (evaluator_name (evaluations bob_state ! i)) \<and>
                 getitem r (lit ''Timestamp'') = Inr (timestamp (evaluations bob_state ! i)) \<and>
                 getitem r (lit ''Technology'') = Inr (TECHNOLOGIES ! j) \<and>
                 getitem r (lit ''Comments'') = Inr (comments (evaluations bob_state ! i)) \<and>
                 (\<forall>c. c \<in> set CRITERIA \<longrightarrow>
                    getitem r c =
                      Inr (if selected bob_state (evaluations bob_state ! i) (TECHNOLOGIES ! j) c
                           then [10003] else [])))"
    by blast
  have ij: "(1::nat) < length (evaluations bob_state) \<and> (1::nat) < ?n"
    by (simp add: bob_state_facts(3) length_TECHNOLOGIES)
  have six: "1 * ?n + 1 = 6" by (simp add: length_TECHNOLOGIES)
  have e1: "evaluations bob_state ! 1 = bob_record" by (simp add: bob_state_facts(3))
  from all ij have
    r: "getitem (rows ! (1 * ?n + 1)) (lit ''Evaluator'') = Inr (evaluator_name (evaluations bob_state ! 1))"
       "getitem (rows ! (1 * ?n + 1)) (lit ''Technology'') = Inr (TECHNOLOGIES ! 1)"
       "getitem (rows ! (1 * ?n + 1)) (lit ''Comments'') = Inr (comments (evaluations bob_state ! 1))"
       "\<forall>c. c \<in> set CRITERIA \<longrightarrow>
          getitem (rows ! (1 * ?n + 1)) c =
            Inr (if selected bob_state (evaluations bob_state ! 1) (TECHNOLOGIES ! 1) c
                 then [10003] else [])"
    by blast+
  have l1: "1 < length TECHNOLOGIES" by (simp add: length_TECHNOLOGIES)
  have s2: "selected bob_state bob_record (TECHNOLOGIES ! 1) (lit ''Criteria 2'')"
    unfolding selected_def using bob_state_facts(4) [OF l1 criteria_mem(2)] by simp
  have s1: "\<not> selected bob_state bob_record (TECHNOLOGIES ! 1) (lit ''Criteria 1'')"
    unfolding selected_def using bob_state_facts(4) [OF l1 criteria_mem(1)] by (simp add: lit_def)
  have c2: "getitem (rows ! 6) (lit ''Criteria 2'') = Inr [10003]"
    using r(4) criteria_mem(2) s2 unfolding six e1 by simp
  have c1: "getitem (rows ! 6) (lit ''Criteria 1'') = Inr []"
    using r(4) criteria_mem(1) s1 unfolding six e1 by simp
  have f: "getitem (rows ! 6) (lit ''Evaluator'') = Inr (lit ''Bob'')"
    "getitem (rows ! 6) (lit ''Technology'') = Inr (lit ''Tech B'')"
    "getitem (rows ! 6) (lit ''Comments'') = Inr []"
    using r(1,2,3) unfolding six e1 tech_index by (simp_all add: bob_record_def)
  have "length rows = 10" using len by (simp add: bob_state_facts(3) length_TECHNOLOGIES)
  then show ?thesis using run f c2 c1 by blast
qed

lemma spec_selected_techs_eq:
  "spec_selected_techs st e = filter (\<lambda>tech. \<exists>c \<in> set CRITERIA. selected st e tech c) TECHNOLOGIES"
  by (simp add: spec_selected_techs_def list_ex_iff)

lemma spec_summary_row_cells:
  "map fst (spec_summary_row st e) =
     [lit ''Evaluator'', lit ''Timestamp'', lit ''Comments'', lit ''Selected Technologies'']"
  "getitem (spec_summary_row st e) (lit ''Evaluator'') = Inr (evaluator_name e)"
  "getitem (spec_summary_row st e) (lit ''Timestamp'') = Inr (timestamp e)"
  "getitem (spec_summary_row st e) (lit ''Comments'') =
     Inr (if comments e = [] then lit ''(no comments)'' else comments e)"
  "getitem (spec_summary_row st e) (lit ''Selected Technologies'') =
     Inr (if spec_selected_techs st e = [] then lit ''(none selected)''
          else join (lit '', '') (spec_selected_techs st e))"
  by (simp_all add: spec_summary_row_def getitem_eq_Inr lit_def)

lemma join_concat: "join sep (x # xs) = x @ concat (map (\<lambda>u. sep @ u) xs)"
  by (induction xs arbitrary: x) simp_all

lemma joined_field:
  "(if xs = [] then a else join sep xs) =
   (case xs of [] \<Rightarrow> a | t # ts \<Rightarrow> t @ concat (map (\<lambda>u. sep @ u) ts))"
  by (cases xs) (simp_all add: join_concat)

text \<open>
  C7. The summary export has one row per evaluation, in the order of the store, with the
  columns Evaluator, Timestamp, Comments and Selected Technologies. The last field lists
  exactly the technologies for which the record selected at least one criterion, in the
  order of \<open>TECHNOLOGIES\<close>: the first of them, and then each further one after a comma
  and a space. It is "(none selected)" when there is none.
\<close>

theorem C7_summary_selected_technologies:
  assumes "wf_state st"
  shows "\<exists>rows. results_for_display st = Inr rows \<and>
           length rows = length (evaluations st) \<and>
           (\<forall>i. i < length (evaluations st) \<longrightarrow>
              map fst (rows ! i) =
                [lit ''Evaluator'', lit ''Timestamp'', lit ''Comments'', lit ''Selected Technologies''] \<and>
              getitem (rows ! i) (lit ''Evaluator'') = Inr (evaluator_name (evaluations st ! i)) \<and>
              getitem (rows ! i) (lit ''Timestamp'') = Inr (timestamp (evaluations st ! i)) \<and>
              getitem (rows ! i) (lit ''Selected Technologies'') =
                Inr (case filter (\<lambda>tech. \<exists>c \<in> set CRITERIA. selected st (evaluations st ! i) tech c)
                            TECHNOLOGIES of
                       [] \<Rightarrow> lit ''(none selected)''
                     | t # ts \<Rightarrow> t @ concat (map (\<lambda>u. [44, 32] @ u) ts)))"
proof -
  let ?rows = "map (spec_summary_row st) (evaluations st)"
  have run: "results_for_display st = Inr ?rows" using assms by (rule results_for_display_wf)
  have sep: "lit '', '' = [44, 32]" by (simp add: lit_def)
  have field: "getitem (spec_summary_row st e) (lit ''Selected Technologies'') =
        Inr (case filter (\<lambda>tech. \<exists>c \<in> set CRITERIA. selected st e tech c) TECHNOLOGIES of
               [] \<Rightarrow> lit ''(none selected)''
             | t # ts \<Rightarrow> t @ concat (map (\<lambda>u. [44, 32] @ u) ts))" for e
    unfolding spec_summary_row_cells(5) joined_field spec_selected_techs_eq sep ..
  have "\<forall>i. i < length (evaluations st) \<longrightarrow>
              map fst (?rows ! i) =
                [lit ''Evaluator'', lit ''Timestamp'', lit ''Comments'', lit ''Selected Technologies''] \<and>
              getitem (?rows ! i) (lit ''Evaluator'') = Inr (evaluator_name (evaluations st ! i)) \<and>
              getitem (?rows ! i) (lit ''Timestamp'') = Inr (timestamp (evaluations st ! i)) \<and>
              getitem (?rows ! i) (lit ''Selected Technologies'') =
                Inr (case filter (\<lambda>tech. \<exists>c \<in> set CRITERIA. selected st (evaluations st ! i) tech c)
                            TECHNOLOGIES of
                       [] \<Rightarrow> lit ''(none selected)''
                     | t # ts \<Rightarrow> t @ concat (map (\<lambda>u. [44, 32] @ u) ts))"
    by (simp add: spec_summary_row_cells(1,2,3) field)
  then show ?thesis using run by (intro exI [of _ ?rows] conjI) simp_all
qed

lemma poll_any_selected:
  assumes "k < 20" "tech \<in> set TECHNOLOGIES"
  shows "(\<exists>c \<in> set CRITERIA. selected poll_state (evaluations poll_state ! k) tech c) \<longleftrightarrow>
         k < 11 \<and> (tech = lit ''Tech A'' \<or> tech = lit ''Tech C'' \<or> tech = lit ''Tech E'')"
proof -
  from assms(2) obtain i where i: "i < length TECHNOLOGIES" "tech = TECHNOLOGIES ! i"
    by (auto simp: in_set_conv_nth)
  have l: "0 < length TECHNOLOGIES" "2 < length TECHNOLOGIES" "4 < length TECHNOLOGIES"
    by (simp_all add: length_TECHNOLOGIES)
  have i0: "i = 0 \<longleftrightarrow> tech = lit ''Tech A''"
    using nth_eq_iff_index_eq [OF distinct_TECHNOLOGIES i(1) l(1), unfolded tech_index] i(2) by auto
  have i2: "i = 2 \<longleftrightarrow> tech = lit ''Tech C''"
    using nth_eq_iff_index_eq [OF distinct_TECHNOLOGIES i(1) l(2), unfolded tech_index] i(2) by auto
  have i4: "i = 4 \<longleftrightarrow> tech = lit ''Tech E''"
    using nth_eq_iff_index_eq [OF distinct_TECHNOLOGIES i(1) l(3), unfolded tech_index] i(2) by auto
  have "(\<exists>c \<in> set CRITERIA. selected poll_state (evaluations poll_state ! k) tech c) \<longleftrightarrow>
        k < 11 \<and> (i = 0 \<or> i = 2 \<or> i = 4)"
    unfolding selected_def i(2) using poll_state_facts(4) [OF assms(1) i(1)] criteria_mem(1) by auto
  then show ?thesis unfolding i0 i2 i4 .
qed

lemma poll_selected_techs:
  assumes "k < 20"
  shows "filter (\<lambda>tech. \<exists>c \<in> set CRITERIA. selected poll_state (evaluations poll_state ! k) tech c)
           TECHNOLOGIES =
         (if k < 11 then [lit ''Tech A'', lit ''Tech C'', lit ''Tech E''] else [])"
proof -
  have "filter (\<lambda>tech. \<exists>c \<in> set CRITERIA. selected poll_state (evaluations poll_state ! k) tech c)
          TECHNOLOGIES =
        filter (\<lambda>tech. k < 11 \<and> (tech = lit ''Tech A'' \<or> tech = lit ''Tech C'' \<or> tech = lit ''Tech E''))
          TECHNOLOGIES"
    by (rule filter_cong [OF refl]) (rule poll_any_selected [OF assms])
  then show ?thesis by (simp add: TECHNOLOGIES_def lit_def)
qed

theorem C7_summary_selected_technologies_witness:
  "\<exists>rows. results_for_display poll_state = Inr rows \<and> length rows = 20 \<and>
     getitem (rows ! 0) (lit ''Selected Technologies'') = Inr (lit ''Tech A, Tech C, Tech E'') \<and>
     getitem (rows ! 19) (lit ''Selected Technologies'') = Inr (lit ''(none selected)'')"
proof -
  from C7_summary_selected_technologies [OF poll_state_facts(2)] obtain rows where
    run: "results_for_display poll_state = Inr rows" and
    len: "length rows = length (evaluations poll_state)" and
    all: "\<forall>i. i < length (evaluations poll_state) \<longrightarrow>
              getitem (rows ! i) (lit ''Selected Technologies'') =
                Inr (case filter (\<lambda>tech. \<exists>c \<in> set CRITERIA.
                                     selected poll_state (evaluations poll_state ! i) tech c)
                            TECHNOLOGIES of
                       [] \<Rightarrow> lit ''(none selected)''
                     | t # ts \<Rightarrow> t @ concat (map (\<lambda>u. [44, 32] @ u) ts))"
    by blast
  have k: "(0::nat) < 20" "(19::nat) < 20" by simp_all
  have l: "(0::nat) < length (evaluations poll_state)" "(19::nat) < length (evaluations poll_state)"
    by (simp_all add: poll_state_facts(3))
  have r0: "getitem (rows ! 0) (lit ''Selected Technologies'') = Inr (lit ''Tech A, Tech C, Tech E'')"
    using all [rule_format, OF l(1)] unfolding poll_selected_techs [OF k(1)] by (simp add: lit_def)
  have r19: "getitem (rows ! 19) (lit ''Selected Technologies'') = Inr (lit ''(none selected)'')"
    using all [rule_format, OF l(2)] unfolding poll_selected_techs [OF k(2)] by simp
  have "length rows = 20" using len by (simp add: poll_state_facts(3))
  then show ?thesis using run r0 r19 by blast
qed

text \<open>
  C10. In the summary table (and the summary export written from it) the Comments field of
  a record whose stored comment is empty is "(no comments)", and otherwise the stored
  comment, so it is never the empty string. In the detailed export the Comments field is
  the stored comment as it is, empty or not.
\<close>

theorem C10_summary_comment_placeholder:
  assumes "wf_state st"
  shows "\<exists>rows drows. results_for_display st = Inr rows \<and> csv_rows st = Inr drows \<and>
           length rows = length (evaluations st) \<and>
           (\<forall>i. i < length (evaluations st) \<longrightarrow>
              getitem (rows ! i) (lit ''Comments'') =
                Inr (if comments (evaluations st ! i) = [] then lit ''(no comments)''
                     else comments (evaluations st ! i)) \<and>
              getitem (rows ! i) (lit ''Comments'') \<noteq> Inr []) \<and>
           (\<forall>i j. i < length (evaluations st) \<and> j < length TECHNOLOGIES \<longrightarrow>
              getitem (drows ! (i * length TECHNOLOGIES + j)) (lit ''Comments'') =
                Inr (comments (evaluations st ! i)))"
proof -
  let ?rows = "map (spec_summary_row st) (evaluations st)"
  let ?drows = "concat (map (\<lambda>e. map (spec_csv_row st e) TECHNOLOGIES) (evaluations st))"
  have run: "results_for_display st = Inr ?rows" using assms by (rule results_for_display_wf)
  have drun: "csv_rows st = Inr ?drows" using assms by (rule csv_rows_wf)
  have ne: "lit ''(no comments)'' \<noteq> []" by (simp add: lit_def)
  have s: "\<forall>i. i < length (evaluations st) \<longrightarrow>
              getitem (?rows ! i) (lit ''Comments'') =
                Inr (if comments (evaluations st ! i) = [] then lit ''(no comments)''
                     else comments (evaluations st ! i)) \<and>
              getitem (?rows ! i) (lit ''Comments'') \<noteq> Inr []"
    using ne by (simp add: spec_summary_row_cells)
  have d: "\<forall>i j. i < length (evaluations st) \<and> j < length TECHNOLOGIES \<longrightarrow>
              getitem (?drows ! (i * length TECHNOLOGIES + j)) (lit ''Comments'') =
                Inr (comments (evaluations st ! i))"
    by (simp add: csv_rows_nth spec_csv_row_cells)
  have len: "length ?rows = length (evaluations st)" by simp
  show ?thesis
    by (rule exI [of _ ?rows], rule exI [of _ ?drows]) (intro conjI run drun len s d)
qed

theorem C10_summary_comment_placeholder_witness:
  "\<exists>rows drows. results_for_display bob_state = Inr rows \<and> csv_rows bob_state = Inr drows \<and>
     getitem (rows ! 0) (lit ''Comments'') = Inr (lit ''good fit'') \<and>
     getitem (rows ! 1) (lit ''Comments'') = Inr (lit ''(no comments)'') \<and>
     getitem (drows ! 5) (lit ''Comments'') = Inr []"
proof -
  let ?n = "length TECHNOLOGIES"
  from C10_summary_comment_placeholder [OF bob_state_facts(2)] obtain rows drows where
    run: "results_for_display bob_state = Inr rows" "csv_rows bob_state = Inr drows" and
    s: "\<forall>i. i < length (evaluations bob_state) \<longrightarrow>
              getitem (rows ! i) (lit ''Comments'') =
                Inr (if comments (evaluations bob_state ! i) = [] then lit ''(no comments)''
                     else comments (evaluations bob_state ! i)) \<and>
              getitem (rows ! i) (lit ''Comments'') \<noteq> Inr []" and
    d: "\<forall>i j. i < length (evaluations bob_state) \<and> j < ?n \<longrightarrow>
              getitem (drows ! (i * ?n + j)) (lit ''Comments'') =
                Inr (comments (evaluations bob_state ! i))"
    by blast
  have l: "(0::nat) < length (evaluations bob_state)" "(1::nat) < length (evaluations bob_state)"
    by (simp_all add: bob_state_facts(3))
  have e: "evaluations bob_state ! 0 = alice_record" "evaluations bob_state ! 1 = bob_record"
    by (simp_all add: bob_state_facts(3))
  have gf: "lit ''good fit'' \<noteq> []" by (simp add: lit_def)
  have r0: "getitem (rows ! 0) (lit ''Comments'') = Inr (lit ''good fit'')"
    using s [rule_format, OF l(1)] gf unfolding e by (simp add: alice_record_def)
  have r1: "getitem (rows ! 1) (lit ''Comments'') = Inr (lit ''(no comments)'')"
    using s [rule_format, OF l(2)] unfolding e by (simp add: bob_record_def)
  have five: "1 * ?n + 0 = 5" by (simp add: length_TECHNOLOGIES)
  have "(1::nat) < length (evaluations bob_state) \<and> (0::nat) < ?n"
    using l(2) by (simp add: length_TECHNOLOGIES)
  from d [rule_format, OF this]
  have d5: "getitem (drows ! 5) (lit ''Comments'') = Inr []"
    unfolding five e by (simp add: bob_record_def)
  show ?thesis using run r0 r1 d5 by blast
qed

section \<open>The comment box across submissions\<close>

lemma interact_click:
  assumes "wf_state st" "strip (name_box pg) \<noteq> []"
  shows "\<exists>st'. interact (ClickSubmit, df, now) (pg, st) = Inr (pg, st') \<and> wf_state st' \<and>
           evaluations st' = evaluations st @
             [\<lparr>evaluator_name = strip (name_box pg), timestamp = isoformat_seconds now,
               selections = current_selections st, comments = strip (comment_box pg)\<rparr>] \<and>
           current_comment st' = []"
proof -
  let ?w = "\<lparr>evaluator_input = name_box pg, evaluation_table = df,
             comments_area = comment_box pg, submit_button = True, clock = now\<rparr>"
  have b: "submit_button ?w" by simp
  have n: "strip (evaluator_input ?w) \<noteq> []" using assms(2) by simp
  from script_submit_ok [OF assms(1) b n] obtain st' fb res where
    run: "script ?w st = Inr (st', fb, res)" and wf': "wf_state st'" and
    ev: "evaluations st' = evaluations st @
           [\<lparr>evaluator_name = strip (evaluator_input ?w), timestamp = isoformat_seconds (clock ?w),
             selections = current_selections st, comments = strip (comments_area ?w)\<rparr>]" and
    cc: "current_comment st' = []"
    by blast
  have "interact (ClickSubmit, df, now) (pg, st) = Inr (pg, st')"
    by (simp add: interact_def run)
  then show ?thesis using wf' ev cc by simp
qed

lemma interact_typing:
  assumes "wf_state st" "act \<noteq> ClickSubmit"
  shows "\<exists>st'. interact (act, df, now) (pg, st) = Inr (user_edit act pg, st') \<and> wf_state st' \<and>
           evaluations st' = evaluations st"
proof -
  let ?pg = "user_edit act pg"
  let ?w = "\<lparr>evaluator_input = name_box ?pg, evaluation_table = df,
             comments_area = comment_box ?pg, submit_button = False, clock = now\<rparr>"
  from script_frame [OF assms(1), of ?w] obtain st' fb res where
    run: "script ?w st = Inr (st', fb, res)" and wf': "wf_state st'" and
    ev: "evaluations st' = evaluations st"
    by auto
  have "interact (act, df, now) (pg, st) = Inr (?pg, st')"
    using assms(2) by (simp add: interact_def Let_def run)
  then show ?thesis using wf' ev by blast
qed

text \<open>
  C4. After a successful submit the comment that the next submit consumes is not cleared.
  The submit branch assigns \<open>st.session_state.current_comment\<close>, which nothing reads; the
  comment box is the widget with key \<open>comments_area\<close>, which the script never assigns, so
  the box keeps its text. Two clicks on the button in a row, the user touching nothing
  in between, store two records with the same comment.
\<close>

theorem C4_comment_box_survives_submit:
  assumes "wf_state st" and "strip (name_box pg) \<noteq> []"
  shows "\<exists>pg' st' e1 e2.
           interactions [(ClickSubmit, df1, t1), (ClickSubmit, df2, t2)] (pg, st) = Inr (pg', st') \<and>
           evaluations st' = evaluations st @ [e1, e2] \<and>
           comments e1 = strip (comment_box pg) \<and>
           comments e2 = strip (comment_box pg) \<and>
           comment_box pg' = comment_box pg \<and>
           current_comment st' = []"
proof -
  let ?e1 = "\<lparr>evaluator_name = strip (name_box pg), timestamp = isoformat_seconds t1,
               selections = current_selections st, comments = strip (comment_box pg)\<rparr>"
  from interact_click [OF assms, of df1 t1] obtain st1 where
    r1: "interact (ClickSubmit, df1, t1) (pg, st) = Inr (pg, st1)" and wf1: "wf_state st1" and
    ev1: "evaluations st1 = evaluations st @ [?e1]"
    by blast
  let ?e2 = "\<lparr>evaluator_name = strip (name_box pg), timestamp = isoformat_seconds t2,
               selections = current_selections st1, comments = strip (comment_box pg)\<rparr>"
  from interact_click [OF wf1 assms(2), of df2 t2] obtain st2 where
    r2: "interact (ClickSubmit, df2, t2) (pg, st1) = Inr (pg, st2)" and
    ev2: "evaluations st2 = evaluations st1 @ [?e2]" and
    cc: "current_comment st2 = []"
    by blast
  have run: "interactions [(ClickSubmit, df1, t1), (ClickSubmit, df2, t2)] (pg, st) = Inr (pg, st2)"
    by (simp add: r1 r2)
  have "interactions [(ClickSubmit, df1, t1), (ClickSubmit, df2, t2)] (pg, st) = Inr (pg, st2) \<and>
           evaluations st2 = evaluations st @ [?e1, ?e2] \<and>
           comments ?e1 = strip (comment_box pg) \<and>
           comments ?e2 = strip (comment_box pg) \<and>
           comment_box pg = comment_box pg \<and>
           current_comment st2 = []"
    using run ev1 ev2 cc by simp
  then show ?thesis
    by (intro exI [of _ pg] exI [of _ st2] exI [of _ ?e1] exI [of _ ?e2])
qed

theorem C4_comment_box_survives_submit_witness:
  "\<exists>pg' st' e1 e2.
     interactions
       [(TypeName (lit ''Alice''), (\<lambda>i c. False), example_clock),
        (TypeComment (lit ''good fit''), (\<lambda>i c. False), example_clock),
        (ClickSubmit, (\<lambda>i c. False), example_clock),
        (ClickSubmit, (\<lambda>i c. False), example_clock\<lparr>minute := 7\<rparr>)]
       (\<lparr>name_box = [], comment_box = []\<rparr>, init_state) = Inr (pg', st') \<and>
     evaluations st' = [e1, e2] \<and>
     comments e1 = lit ''good fit'' \<and>
     comments e2 = lit ''good fit'' \<and>
     comment_box pg' = lit ''good fit'' \<and>
     current_comment st' = []"
proof -
  let ?pg0 = "\<lparr>name_box = [], comment_box = []\<rparr>"
  let ?pg1 = "\<lparr>name_box = lit ''Alice'', comment_box = []\<rparr>"
  let ?pg2 = "\<lparr>name_box = lit ''Alice'', comment_box = lit ''good fit''\<rparr>"
  let ?df = "\<lambda>(i::nat) (c::str). False"
  have a1: "TypeName (lit ''Alice'') \<noteq> ClickSubmit" and a2: "TypeComment (lit ''good fit'') \<noteq> ClickSubmit"
    by simp_all
  from interact_typing [OF wf_init a1, of ?df example_clock ?pg0] obtain st1 where
    r1: "interact (TypeName (lit ''Alice''), ?df, example_clock) (?pg0, init_state) = Inr (?pg1, st1)" and
    wf1: "wf_state st1" and ev1: "evaluations st1 = evaluations init_state"
    by auto
  from interact_typing [OF wf1 a2, of ?df example_clock ?pg1] obtain st2 where
    r2: "interact (TypeComment (lit ''good fit''), ?df, example_clock) (?pg1, st1) = Inr (?pg2, st2)" and
    wf2: "wf_state st2" and ev2: "evaluations st2 = evaluations st1"
    by auto
  have n: "strip (name_box ?pg2) \<noteq> []"
    by (simp add: strip_def lit_def isspace_def)
  from C4_comment_box_survives_submit [OF wf2 n, of ?df example_clock ?df "example_clock\<lparr>minute := 7\<rparr>"]
  obtain pg' st' e1 e2 where
    run: "interactions [(ClickSubmit, ?df, example_clock), (ClickSubmit, ?df, example_clock\<lparr>minute := 7\<rparr>)]
            (?pg2, st2) = Inr (pg', st')" and
    ev: "evaluations st' = evaluations st2 @ [e1, e2]" and
    c: "comments e1 = strip (comment_box ?pg2)" "comments e2 = strip (comment_box ?pg2)"
       "comment_box pg' = comment_box ?pg2" "current_comment st' = []"
    by blast
  have all: "interactions
       [(TypeName (lit ''Alice''), ?df, example_clock),
        (TypeComment (lit ''good fit''), ?df, example_clock),
        (ClickSubmit, ?df, example_clock),
        (ClickSubmit, ?df, example_clock\<lparr>minute := 7\<rparr>)]
       (?pg0, init_state) = Inr (pg', st')"
    using run by (simp add: r1 r2)
  have e: "evaluations st' = [e1, e2]"
    using ev ev1 ev2 by (simp add: init_state_eq)
  have c': "comments e1 = lit ''good fit''" "comments e2 = lit ''good fit''"
    "comment_box pg' = lit ''good fit''"
    using c by (simp_all add: alice_comment)
  show ?thesis using all e c' c(4) by blast
qed

end
